theory Spec2Isabelle
  imports Complex_Main "HOL-Library.Sublist" "HOL-Library.AList"
begin

section \<open>Strings\<close>

text \<open>
  JavaScript strings are modelled as \<^typ>\<open>string\<close>. The log files and the static tables of
  \<^verbatim>\<open>supercop.ts\<close> are ASCII, where a character of the model is one UTF-16 code unit of
  the program.
\<close>

definition bs :: string where
  "bs = [CHR 0x5C]"

definition nl :: string where
  "nl = [CHR 0x0A]"

text \<open>\<^verbatim>\<open>s.includes(w)\<close>: \<open>w\<close> occurs in \<open>s\<close> as a contiguous substring.\<close>

fun includes_str :: "string \<Rightarrow> string \<Rightarrow> bool" where
  "includes_str [] w = (w = [])"
| "includes_str (c # s) w = (prefix w (c # s) \<or> includes_str s w)"

text \<open>\<^verbatim>\<open>s.split(sep)\<close> for a separator of one character.\<close>

fun split_on :: "char \<Rightarrow> string \<Rightarrow> string list" where
  "split_on sep [] = [[]]"
| "split_on sep (c # s) =
     (if c = sep then [] # split_on sep s
      else (case split_on sep s of [] \<Rightarrow> [[c]] | w # ws \<Rightarrow> (c # w) # ws))"

fun join :: "string \<Rightarrow> string list \<Rightarrow> string" where
  "join sep [] = []"
| "join sep [x] = x"
| "join sep (x # y # ys) = x @ sep @ join sep (y # ys)"

definition padStart :: "nat \<Rightarrow> string \<Rightarrow> string" where
  "padStart n s = replicate (n - length s) (CHR '' '') @ s"

definition padEnd :: "nat \<Rightarrow> string \<Rightarrow> string" where
  "padEnd n s = s @ replicate (n - length s) (CHR '' '')"

section \<open>The log-line pattern\<close>

text \<open>
  The character classes of \<^verbatim>\<open>DB_REG_OK\<close>: \<^verbatim>\<open>\d\<close>, \<^verbatim>\<open>\w\<close>, \<^verbatim>\<open>[\w\/]\<close>,
  \<^verbatim>\<open>[-\w\/]\<close> and \<^verbatim>\<open>[-=\w\/]\<close>.
\<close>

datatype cc = Digit | Word | WordSlash | DashWordSlash | DashEqWordSlash

definition is_digit :: "char \<Rightarrow> bool" where
  "is_digit c = (48 \<le> (of_char c :: nat) \<and> (of_char c :: nat) \<le> 57)"

definition is_word :: "char \<Rightarrow> bool" where
  "is_word c =
     (is_digit c \<or> (65 \<le> (of_char c :: nat) \<and> (of_char c :: nat) \<le> 90)
      \<or> (97 \<le> (of_char c :: nat) \<and> (of_char c :: nat) \<le> 122) \<or> c = CHR ''_'')"

fun in_cc :: "cc \<Rightarrow> char \<Rightarrow> bool" where
  "in_cc Digit c = is_digit c"
| "in_cc Word c = is_word c"
| "in_cc WordSlash c = (is_word c \<or> c = CHR ''/'')"
| "in_cc DashWordSlash c = (c = CHR ''-'' \<or> is_word c \<or> c = CHR ''/'')"
| "in_cc DashEqWordSlash c = (c = CHR ''-'' \<or> c = CHR ''='' \<or> is_word c \<or> c = CHR ''/'')"

text \<open>
  The fragment of regular expressions the pattern is written in: literal text, a greedy
  \<^verbatim>\<open>+\<close> over a character class, the same inside a named group, sequence, alternation
  and a greedy optional group.
\<close>

datatype re =
    Lit string
  | Plus cc
  | Named string cc
  | Seq re re
  | Alt re re
  | Opt re

fun seqs :: "re list \<Rightarrow> re" where
  "seqs [] = Lit []"
| "seqs [r] = r"
| "seqs (r # rs) = Seq r (seqs rs)"

text \<open>
  All the ways a greedy \<^verbatim>\<open>+\<close> can match at the start of a string, in the order a
  backtracking matcher tries them: the longest run first, then one character less, down to
  a single character.
\<close>

fun plus_matches :: "(char \<Rightarrow> bool) \<Rightarrow> string \<Rightarrow> (string \<times> string) list" where
  "plus_matches P [] = []"
| "plus_matches P (c # s) =
     (if P c then map (\<lambda>(m, r). (c # m, r)) (plus_matches P s) @ [([c], s)] else [])"

type_synonym groups = "(string \<times> string) list"

text \<open>
  The matches of a pattern at the start of a string, each with its named groups and the
  rest of the string, in the order of the backtracking search of the regular expression
  engine: the first element is the match \<^verbatim>\<open>exec\<close> reports. In a sequence, every
  way of matching the first part is continued by every way of matching the second.
\<close>

fun bind_alts ::
  "(string \<Rightarrow> (groups \<times> string) list) \<Rightarrow> (groups \<times> string) list \<Rightarrow> (groups \<times> string) list" where
  "bind_alts f [] = []"
| "bind_alts f ((g, r) # alts) = map (\<lambda>(g', r'). (g @ g', r')) (f r) @ bind_alts f alts"

primrec matches :: "re \<Rightarrow> string \<Rightarrow> (groups \<times> string) list" where
  "matches (Lit w) = (\<lambda>s. if prefix w s then [([], drop (length w) s)] else [])"
| "matches (Plus c) = (\<lambda>s. map (\<lambda>(m, r). ([], r)) (plus_matches (in_cc c) s))"
| "matches (Named n c) = (\<lambda>s. map (\<lambda>(m, r). ([(n, m)], r)) (plus_matches (in_cc c) s))"
| "matches (Seq a b) = (\<lambda>s. bind_alts (matches b) (matches a s))"
| "matches (Alt a b) = (\<lambda>s. matches a s @ matches b s)"
| "matches (Opt a) = (\<lambda>s. matches a s @ [([], s)])"

definition exec_at :: "re \<Rightarrow> string \<Rightarrow> groups option" where
  "exec_at r s = (case matches r s of [] \<Rightarrow> None | (g, rest) # others \<Rightarrow> Some g)"

text \<open>
  \<^verbatim>\<open>r.exec(line)?.groups\<close> for a pattern without flags: the search starts at index 0 and
  moves right until the pattern matches; \<open>None\<close> is \<^verbatim>\<open>undefined\<close>.
\<close>

fun exec :: "re \<Rightarrow> string \<Rightarrow> groups option" where
  "exec r [] = exec_at r []"
| "exec r (c # s) = (case exec_at r (c # s) of Some g \<Rightarrow> Some g | None \<Rightarrow> exec r s)"

definition DB_REG_OK :: re where
  "DB_REG_OK = seqs
     [Named ''supercopversion'' Digit, Lit '' '',
      Named ''host'' Word, Lit '' '',
      Named ''abi'' Word, Lit '' '',
      Named ''date'' Digit, Lit '' '',
      Named ''primitive'' Word, Lit '' '',
      Named ''timecop'' WordSlash, Lit '' try'',
      Opt (seqs [Lit ''('', Plus Word, Lit ''placeasm:'', Plus Word, Lit '')'']), Lit '' '',
      Named ''checksum'' WordSlash, Lit '' '',
      Alt (Lit ''ok'') (Lit ''unknown''), Lit '' '',
      Named ''cycles'' Digit, Lit '' '',
      Named ''chksmcycles'' Digit, Lit '' '',
      Named ''cyclespersecond'' Digit, Lit '' '',
      Named ''impl'' DashWordSlash, Lit '' '',
      Named ''cc'' WordSlash, Lit ''_'',
      Named ''cflags'' DashEqWordSlash]"

text \<open>
  The language of a pattern, independent of any search order: \<open>derives r m g\<close> holds when
  the text \<open>m\<close> as a whole has the shape \<open>r\<close> and \<open>g\<close> lists its named fields.
\<close>

inductive derives :: "re \<Rightarrow> string \<Rightarrow> groups \<Rightarrow> bool" where
  d_lit: "derives (Lit w) w []"
| d_plus: "m \<noteq> [] \<Longrightarrow> list_all (in_cc c) m \<Longrightarrow> derives (Plus c) m []"
| d_named: "m \<noteq> [] \<Longrightarrow> list_all (in_cc c) m \<Longrightarrow> derives (Named n c) m [(n, m)]"
| d_seq: "derives a m1 g1 \<Longrightarrow> derives b m2 g2 \<Longrightarrow> derives (Seq a b) (m1 @ m2) (g1 @ g2)"
| d_alt1: "derives a m g \<Longrightarrow> derives (Alt a b) m g"
| d_alt2: "derives b m g \<Longrightarrow> derives (Alt a b) m g"
| d_opt_some: "derives a m g \<Longrightarrow> derives (Opt a) m g"
| d_opt_none: "derives (Opt a) [] []"

text \<open>
  A line has the shape of the log-line grammar when some part of it does: the pattern is
  not anchored.
\<close>

definition line_matches :: "string \<Rightarrow> groups \<Rightarrow> bool" where
  "line_matches line g = (\<exists>pre m post. line = pre @ m @ post \<and> derives DB_REG_OK m g)"

section \<open>Observations\<close>

record observation =
  impl :: string
  cycles :: nat
  machine :: string

text \<open>
  \<^verbatim>\<open>Number(g.cycles)\<close> on a string of decimal digits. JavaScript numbers are IEEE doubles;
  the model computes with exact numbers, which is what the program does for every integer
  below \<open>2^53\<close>.
\<close>

definition Number_digits :: "string \<Rightarrow> nat" where
  "Number_digits s = foldl (\<lambda>a c. 10 * a + ((of_char c :: nat) - 48)) 0 s"

text \<open>
  The record kept from a match. All three groups take part in every match of
  \<^verbatim>\<open>DB_REG_OK\<close>, so the last case is never taken.
\<close>

definition carry :: "groups \<Rightarrow> observation option" where
  "carry g =
     (case (map_of g ''impl'', map_of g ''cycles'', map_of g ''host'') of
        (Some i, Some c, Some h) \<Rightarrow> Some \<lparr>impl = i, cycles = Number_digits c, machine = h\<rparr>
      | _ \<Rightarrow> None)"

text \<open>What the pipeline of \<^verbatim>\<open>data\<close> does with one line.\<close>

definition parse_line :: "string \<Rightarrow> observation option" where
  "parse_line line =
     (if includes_str line ''objsize'' then None
      else (case exec DB_REG_OK line of None \<Rightarrow> None | Some g \<Rightarrow> carry g))"

text \<open>
  The observations of one \<^verbatim>\<open>data\<close> file: split into lines, drop the lines that contain
  \<^verbatim>\<open>objsize\<close>, match each line, drop the lines without a match, keep the three fields.
\<close>

definition datafile :: "string \<Rightarrow> observation list" where
  "datafile content =
     List.map_filter carry
       (List.map_filter (exec DB_REG_OK)
          (filter (\<lambda>line. \<not> includes_str line ''objsize'') (split_on (CHR 0x0A) content)))"


section \<open>The Aggregate Matrix\<close>

text \<open>
  lodash \<^verbatim>\<open>groupBy(collection, key)\<close>: the elements under each key, in the order met.
  The keys are kept in the order of their first element; an object lists keys that look
  like array indices first, which changes nothing below, where each key is handled on its
  own.
\<close>

definition groupBy :: "('a \<Rightarrow> string) \<Rightarrow> 'a list \<Rightarrow> (string \<times> 'a list) list" where
  "groupBy key xs =
     foldl (\<lambda>acc x. case map_of acc (key x) of
                        None \<Rightarrow> acc @ [(key x, [x])]
                      | Some vs \<Rightarrow> AList.update (key x) (vs @ [x]) acc) [] xs"

text \<open>
  lodash \<^verbatim>\<open>minBy(array, key)\<close>: the first element whose key is the smallest;
  \<^verbatim>\<open>undefined\<close> on an empty array.
\<close>

fun minBy :: "('a \<Rightarrow> nat) \<Rightarrow> 'a list \<Rightarrow> 'a option" where
  "minBy f [] = None"
| "minBy f (x # xs) = Some (foldl (\<lambda>best y. if f y < f best then y else best) x xs)"

type_synonym matrix = "string \<rightharpoonup> (string \<rightharpoonup> nat)"

text \<open>
  lodash \<^verbatim>\<open>set(acc, `${impl}.${machine}`, cycles)\<close>. Neither identifier can contain a dot
  or a bracket (they match \<^verbatim>\<open>[-\w\/]+\<close> and \<^verbatim>\<open>\w+\<close>), so the path has exactly the two
  keys. Objects are modelled as maps of their own properties.
\<close>

definition set_path :: "matrix \<Rightarrow> string \<Rightarrow> string \<Rightarrow> nat \<Rightarrow> matrix" where
  "set_path acc i m c =
     acc(i \<mapsto> (case acc i of None \<Rightarrow> Map.empty | Some byMachine \<Rightarrow> byMachine)(m \<mapsto> c))"

text \<open>
  The body of the \<^verbatim>\<open>reduce\<close> for one file: group the file's observations by
  implementation, and store the smallest of each group under the host named in that
  observation. A group is never empty, so \<^verbatim>\<open>minBy\<close> always finds an element.
\<close>

definition add_file :: "matrix \<Rightarrow> observation list \<Rightarrow> matrix" where
  "add_file acc obs =
     foldl (\<lambda>acc (i, values). case minBy cycles values of
                                  None \<Rightarrow> acc
                                | Some ob \<Rightarrow> set_path acc i (machine ob) (cycles ob))
       acc (groupBy impl obs)"

text \<open>
  The entry of an implementation after a file in which \<open>vs\<close> is the group of that
  implementation, \<open>old\<close> being its entry before.
\<close>

definition entry_after ::
  "observation list \<Rightarrow> (string \<rightharpoonup> nat) option \<Rightarrow> (string \<rightharpoonup> nat) option" where
  "entry_after vs old =
     (case minBy cycles vs of
        None \<Rightarrow> old
      | Some ob \<Rightarrow> Some ((case old of None \<Rightarrow> Map.empty | Some bm \<Rightarrow> bm)(machine ob \<mapsto> cycles ob)))"

datatype error = ReadError string | TypeError | NotInImpl string

text \<open>
  The root directory as the program sees it: the names \<^verbatim>\<open>readdirSync(dir)\<close> lists, each
  with the text of its file \<^verbatim>\<open>data\<close>, or \<open>None\<close> where \<^verbatim>\<open>readFileSync\<close> throws.
\<close>

type_synonym directory = "(string \<times> string option) list"

fun data_reduce :: "matrix \<Rightarrow> directory \<Rightarrow> error + matrix" where
  "data_reduce acc [] = Inr acc"
| "data_reduce acc ((hostname, None) # rest) = Inl (ReadError hostname)"
| "data_reduce acc ((hostname, Some content) # rest) =
     data_reduce (add_file acc (datafile content)) rest"

definition allowed :: "string list \<Rightarrow> directory \<Rightarrow> directory" where
  "allowed hosts dir = filter (\<lambda>(hostname, file). hostname \<in> set hosts) dir"

definition data :: "string list \<Rightarrow> directory \<Rightarrow> error + matrix" where
  "data hosts dir = data_reduce Map.empty (allowed hosts dir)"

text \<open>All the observations parsed from a list of files, and from the allow-listed hosts.\<close>

definition file_observations :: "directory \<Rightarrow> observation list" where
  "file_observations files =
     concat (map (\<lambda>(hostname, file). case file of None \<Rightarrow> [] | Some content \<Rightarrow> datafile content)
                 files)"

definition observations :: "string list \<Rightarrow> directory \<Rightarrow> observation list" where
  "observations hosts dir = file_observations (allowed hosts dir)"

definition stored :: "matrix \<Rightarrow> string \<Rightarrow> string \<Rightarrow> nat option" where
  "stored M i h = (case M i of None \<Rightarrow> None | Some byMachine \<Rightarrow> byMachine h)"

section \<open>Numbers\<close>

text \<open>
  A JavaScript number is a real number, one of the two infinities or \<^verbatim>\<open>NaN\<close>. The model
  computes with exact reals where the program rounds to IEEE doubles; signed zeros are
  not distinguished (no negative number occurs in the program). A property that is
  \<^verbatim>\<open>undefined\<close> reads as \<^verbatim>\<open>NaN\<close>: that is what arithmetic makes of it, and
  \<^verbatim>\<open>undefined == x\<close> is false for every number \<open>x\<close>, as \<^verbatim>\<open>NaN == x\<close> is.
\<close>

datatype jsnum = NaN | PosInf | NegInf | Fin real

fun js_mul :: "jsnum \<Rightarrow> jsnum \<Rightarrow> jsnum" where
  "js_mul NaN y = NaN"
| "js_mul x NaN = NaN"
| "js_mul (Fin a) (Fin b) = Fin (a * b)"
| "js_mul (Fin a) PosInf = (if a = 0 then NaN else if 0 < a then PosInf else NegInf)"
| "js_mul (Fin a) NegInf = (if a = 0 then NaN else if 0 < a then NegInf else PosInf)"
| "js_mul PosInf (Fin b) = (if b = 0 then NaN else if 0 < b then PosInf else NegInf)"
| "js_mul NegInf (Fin b) = (if b = 0 then NaN else if 0 < b then NegInf else PosInf)"
| "js_mul PosInf PosInf = PosInf"
| "js_mul PosInf NegInf = NegInf"
| "js_mul NegInf PosInf = NegInf"
| "js_mul NegInf NegInf = PosInf"

fun js_div :: "jsnum \<Rightarrow> jsnum \<Rightarrow> jsnum" where
  "js_div NaN y = NaN"
| "js_div x NaN = NaN"
| "js_div (Fin a) (Fin b) =
     (if b \<noteq> 0 then Fin (a / b)
      else if a = 0 then NaN else if 0 < a then PosInf else NegInf)"
| "js_div (Fin a) PosInf = Fin 0"
| "js_div (Fin a) NegInf = Fin 0"
| "js_div PosInf (Fin b) = (if 0 \<le> b then PosInf else NegInf)"
| "js_div NegInf (Fin b) = (if 0 \<le> b then NegInf else PosInf)"
| "js_div PosInf PosInf = NaN"
| "js_div PosInf NegInf = NaN"
| "js_div NegInf PosInf = NaN"
| "js_div NegInf NegInf = NaN"

text \<open>
  \<^verbatim>\<open>Math.pow(base, exponent)\<close>. The program raises a product of cycle counts, which is
  never negative, to the power \<open>1 / N\<close>; the cases of a negative base are written out for
  integer exponents only and are \<^verbatim>\<open>NaN\<close> otherwise, as in the language.
\<close>

fun js_pow :: "jsnum \<Rightarrow> jsnum \<Rightarrow> jsnum" where
  "js_pow x NaN = NaN"
| "js_pow x (Fin y) =
     (if y = 0 then Fin 1
      else case x of
        NaN \<Rightarrow> NaN
      | Fin a \<Rightarrow>
          (if 0 < a then Fin (a powr y)
           else if a = 0 then (if 0 < y then Fin 0 else PosInf)
           else if y \<in> \<int> then Fin (a powi \<lfloor>y\<rfloor>) else NaN)
      | PosInf \<Rightarrow> (if 0 < y then PosInf else Fin 0)
      | NegInf \<Rightarrow>
          (if 0 < y then (if y \<in> \<int> \<and> odd \<lfloor>y\<rfloor> then NegInf else PosInf) else Fin 0))"
| "js_pow x PosInf =
     (case x of
        NaN \<Rightarrow> NaN
      | Fin a \<Rightarrow> (if 1 < \<bar>a\<bar> then PosInf else if \<bar>a\<bar> = 1 then NaN else Fin 0)
      | PosInf \<Rightarrow> PosInf
      | NegInf \<Rightarrow> PosInf)"
| "js_pow x NegInf =
     (case x of
        NaN \<Rightarrow> NaN
      | Fin a \<Rightarrow> (if 1 < \<bar>a\<bar> then Fin 0 else if \<bar>a\<bar> = 1 then NaN else PosInf)
      | PosInf \<Rightarrow> Fin 0
      | NegInf \<Rightarrow> Fin 0)"

fun js_min2 :: "jsnum \<Rightarrow> jsnum \<Rightarrow> jsnum" where
  "js_min2 NaN y = NaN"
| "js_min2 x NaN = NaN"
| "js_min2 NegInf y = NegInf"
| "js_min2 x NegInf = NegInf"
| "js_min2 PosInf y = y"
| "js_min2 x PosInf = x"
| "js_min2 (Fin a) (Fin b) = Fin (min a b)"

text \<open>
  \<^verbatim>\<open>Math.min(...xs)\<close>: \<^verbatim>\<open>Infinity\<close> without arguments, \<^verbatim>\<open>NaN\<close> when an argument is
  \<^verbatim>\<open>NaN\<close>, the smallest argument otherwise.
\<close>

definition Math_min :: "jsnum list \<Rightarrow> jsnum" where
  "Math_min xs = foldl js_min2 PosInf xs"

text \<open>The comparison \<^verbatim>\<open>c == small\<close> of two numbers.\<close>

fun js_eq :: "jsnum \<Rightarrow> jsnum \<Rightarrow> bool" where
  "js_eq (Fin a) (Fin b) = (a = b)"
| "js_eq PosInf PosInf = True"
| "js_eq NegInf NegInf = True"
| "js_eq x y = False"

definition digit_char :: "nat \<Rightarrow> char" where
  "digit_char d = char_of (48 + d)"

text \<open>The decimal digits of a natural number, as a template literal writes an integer.\<close>

function digits_of :: "nat \<Rightarrow> string" where
  "digits_of n = (if n < 10 then [digit_char n] else digits_of (n div 10) @ [digit_char (n mod 10)])"
  by pat_completeness auto
termination
  by (relation "measure id") auto

declare digits_of.simps [simp del]

text \<open>
  \<^verbatim>\<open>x.toFixed(f)\<close>: the integer \<open>n\<close> for which \<open>n / 10^f\<close> is nearest to \<open>x\<close>, the larger
  one of two, written with \<open>f\<close> digits after the point. The language switches to
  exponent notation from \<open>10^21\<close> on; a cycle count does not reach that, and the model
  writes every finite number in fixed notation.
\<close>

definition fixed_digits :: "nat \<Rightarrow> real \<Rightarrow> string" where
  "fixed_digits f x =
     (let n = nat \<lfloor>x * 10 ^ f + 1 / 2\<rfloor>;
          m = digits_of n;
          m' = replicate (f + 1 - length m) (CHR ''0'') @ m
      in if f = 0 then m
         else take (length m' - f) m' @ ''.'' @ drop (length m' - f) m')"

fun toFixed :: "nat \<Rightarrow> jsnum \<Rightarrow> string" where
  "toFixed f NaN = ''NaN''"
| "toFixed f PosInf = ''Infinity''"
| "toFixed f NegInf = ''-Infinity''"
| "toFixed f (Fin x) = (if x < 0 then ''-'' @ fixed_digits f (- x) else fixed_digits f x)"

section \<open>The static tables\<close>

record impl_entry =
  name :: string
  field :: string

text \<open>
  The tables of \<^verbatim>\<open>supercop.ts\<close> that the table generator reads. They are global constants
  of the program; the functions below take them as an argument, and \<open>supercop\<close> is the
  value they have in the source.
\<close>

record config =
  implOrder :: "string list list"
  implMap :: "string \<rightharpoonup> impl_entry"
  machineOrder :: "string list"
  machinenameMap :: "string \<rightharpoonup> string"
  languageMap :: "string \<rightharpoonup> string"
  CAPTION_MAP :: "string \<rightharpoonup> string"

definition PAD_CYC :: nat where
  "PAD_CYC = 18"

definition PAD_NAME :: nat where
  "PAD_NAME = 35"

definition PAD_FIELD :: nat where
  "PAD_FIELD = 8"

definition FACTOR :: jsnum where
  "FACTOR = Fin 1000"









definition supercop_implOrder :: "string list list" where
  "supercop_implOrder =
     [[''crypto_scalarmult/curve25519/sandy2x'',
       ''crypto_scalarmult/curve25519/amd64-64'',
       ''crypto_scalarmult/curve25519/amd64-51'',
       ''crypto_scalarmult/curve25519/donna'',
       ''crypto_scalarmult/curve25519/donna_c64'',
       ''crypto_scalarmult/curve25519/openssl-c-ots'',
       ''crypto_scalarmult/curve25519/openssl-ots'',
       ''crypto_scalarmult/curve25519/openssl-fe64-ots'',
       ''crypto_scalarmult/curve25519/openssl-fe51-cryptopt'',
       ''crypto_scalarmult/curve25519/openssl-fe64-cryptopt'',
       ''crypto_scalarmult/curve25519/openssl-fe64-fiat'',
       ''crypto_scalarmult/curve25519/everest-hacl-51'',
       ''crypto_scalarmult/curve25519/everest-hacl-64'',
       ''crypto_scalarmult/curve25519/everest-hacl-lib-51'',
       ''crypto_scalarmult/curve25519/everest-hacl-lib-64'',
       ''crypto_scalarmult/curve25519/openssl-fe64-w-armdazh''],
      [''crypto_scalarmult/secp256k1/libsecp256k1-ots'',
       ''crypto_scalarmult/secp256k1/libsecp256k1-c-ots'',
       ''crypto_scalarmult/secp256k1/libsecp256k1-ots-c-dettman'',
       ''crypto_scalarmult/secp256k1/libsecp256k1-ots-cryptopt-dettman'',
       ''crypto_scalarmult/secp256k1/libsecp256k1-ots-cryptopt-bcc'']]"

definition supercop_implMap :: "(string \<times> impl_entry) list" where
  "supercop_implMap =
     [(''crypto_scalarmult/curve25519/sandy2x'',
        \<lparr>name = ''sandy2x~'' @ bs @ ''cite{sandy2x}'', field = ''av''\<rparr>),
      (''crypto_scalarmult/curve25519/amd64-51'',
        \<lparr>name = ''amd64-51~'' @ bs @ ''cite{Chen14}'', field = ''a64''\<rparr>),
      (''crypto_scalarmult/curve25519/amd64-64'',
        \<lparr>name = ''amd64-64~'' @ bs @ ''cite{Chen14}'', field = ''a64''\<rparr>),
      (''crypto_scalarmult/curve25519/donna'',
        \<lparr>name = ''donna~'' @ bs @ ''cite{curve25519-donna}'', field = ''av''\<rparr>),
      (''crypto_scalarmult/curve25519/donna_c64'',
        \<lparr>name = ''donna-c64~'' @ bs @ ''cite{curve25519-donna}'', field = ''c51''\<rparr>),
      (''crypto_scalarmult/curve25519/openssl-c-ots'',
        \<lparr>name = ''(1) OSSL ots~'' @ bs @ ''cite{openssl}'', field = ''c51''\<rparr>),
      (''crypto_scalarmult/curve25519/openssl-ots'',
        \<lparr>name = ''(2) OSSL fe-51 ots~'' @ bs @ ''cite{openssl}'', field = ''a51''\<rparr>),
      (''crypto_scalarmult/curve25519/openssl-fe64-ots'',
        \<lparr>name = ''(3) OSSL fe-64 ots~'' @ bs @ ''cite{openssl}'', field = ''a64''\<rparr>),
      (''crypto_scalarmult/curve25519/openssl-fe51-cryptopt'',
        \<lparr>name = ''(4) OSSL fe-51+'' @ bs @ ''textbf'' @ bs @ ''cryptopt'', field = ''a51''\<rparr>),
      (''crypto_scalarmult/curve25519/openssl-fe64-cryptopt'',
        \<lparr>name = ''(5) OSSL fe-64+'' @ bs @ ''textbf'' @ bs @ ''cryptopt (mul only)'',
         field = ''a64''\<rparr>),
      (''crypto_scalarmult/curve25519/openssl-fe64-fiat'',
        \<lparr>name = ''(6) OSSL fe-64+Fiat-C'', field = ''c64''\<rparr>),
      (''crypto_scalarmult/curve25519/openssl-fe64-cryptopt-eql'',
        \<lparr>name = ''OSSL 64+'' @ bs @ ''textbf'' @ bs @ ''cryptopt(mul as sq)'', field = ''a64''\<rparr>),
      (''crypto_scalarmult/curve25519/openssl-fe64-fiat-eql'',
        \<lparr>name = ''OSSL 64+Fiat-C (mul as sq)'', field = ''c64''\<rparr>),
      (''crypto_scalarmult/curve25519/everest-hacl-51'',
        \<lparr>name = ''(7) HACL*~fe-51~'' @ bs @ ''cite{hacl}'', field = ''c51''\<rparr>),
      (''crypto_scalarmult/curve25519/everest-hacl-64'',
        \<lparr>name = ''(8) HACL*~fe-64~'' @ bs @ ''cite{hacl}'', field = ''a64''\<rparr>),
      (''crypto_scalarmult/curve25519/everest-hacl-lib-51'',
        \<lparr>name = ''(9) HACL*~fe-51~'' @ bs @ ''cite{hacl}'', field = ''bin''\<rparr>),
      (''crypto_scalarmult/curve25519/everest-hacl-lib-64'',
        \<lparr>name = ''(10) HACL*~fe-64~'' @ bs @ ''cite{hacl}'', field = ''bin''\<rparr>),
      (''crypto_scalarmult/curve25519/openssl-fe64-w-armdazh'',
        \<lparr>name = ''(11) OSSL fe-64 + (RFC7748~'' @ bs @ ''cite{oliveira_sac2017})'',
         field = ''a64''\<rparr>),
      (''crypto_scalarmult/secp256k1/openssl-ots'',
        \<lparr>name = ''OSSL ots'', field = ''c port''\<rparr>),
      (''crypto_scalarmult/secp256k1/openssl-cryptopt'',
        \<lparr>name = ''OSSL+'' @ bs @ ''textbf'' @ bs @ ''cryptopt'', field = ''sa''\<rparr>),
      (''crypto_scalarmult/secp256k1/libsecp256k1-ots'',
        \<lparr>name = ''libsecp256k1~'' @ bs @ ''cite{libsecp256k1}'', field = ''sa''\<rparr>),
      (''crypto_scalarmult/secp256k1/libsecp256k1-c-ots'',
        \<lparr>name = ''libsecp256k1~'' @ bs @ ''cite{libsecp256k1}'', field = ''c52''\<rparr>),
      (''crypto_scalarmult/secp256k1/libsecp256k1-ots-c-dettman'',
        \<lparr>name = ''libsecp256k1+Dettman (mul only)'', field = ''c52''\<rparr>),
      (''crypto_scalarmult/secp256k1/libsecp256k1-ots-cryptopt-dettman'',
        \<lparr>name = ''libsecp256k1+'' @ bs @ ''textbf'' @ bs @ ''cryptopt (Dettman) (mul only)'',
         field = ''sa''\<rparr>),
      (''crypto_scalarmult/secp256k1/libsecp256k1-ots-cryptopt-bcc'',
        \<lparr>name = ''libsecp256k1+'' @ bs @ ''textbf'' @ bs @ ''cryptopt (CS2)'', field = ''sa''\<rparr>)]"

definition supercop_machineOrder :: "string list" where
  "supercop_machineOrder =
     [''kivsa'', ''nakhash'', ''aljamus'', ''nuc'', ''akrav'', ''akavish'', ''pil'', ''arnevet'']"

definition supercop_machinenameMap :: "(string \<times> string) list" where
  "supercop_machinenameMap =
     [(''kivsa'', ''1900X''), (''nakhash'', ''5800X''), (''aljamus'', ''5950X''),
      (''nuc'', ''i7 6G''), (''akrav'', ''i7 10G''), (''akavish'', ''i9 10G''),
      (''pil'', ''i7 11G''), (''arnevet'', ''i9 12G'')]"

definition supercop_languageMap :: "(string \<times> string) list" where
  "supercop_languageMap =
     [(''c port'', ''C''), (''c'', ''C''), (''c64'', ''C''), (''c52'', ''C''), (''c51'', ''C''),
      (''av'', ''asm-v''), (''a64'', ''asm''), (''a51'', ''asm''), (''sa'', ''asm'')]"

definition supercop_CAPTION_MAP :: "(string \<times> string) list" where
  "supercop_CAPTION_MAP =
     [(''curve25519'', ''Curve25519''), (''p256'', ''P-256''), (''p384'', ''P-384''),
      (''secp256k1'', ''secp256k1'')]"

definition supercop :: config where
  "supercop =
     \<lparr>implOrder = supercop_implOrder,
      implMap = map_of supercop_implMap,
      machineOrder = supercop_machineOrder,
      machinenameMap = map_of supercop_machinenameMap,
      languageMap = map_of supercop_languageMap,
      CAPTION_MAP = map_of supercop_CAPTION_MAP\<rparr>"

section \<open>The table generator\<close>

definition fieldToStr :: "config \<Rightarrow> string \<Rightarrow> string" where
  "fieldToStr cfg implName =
     (case implMap cfg implName of
        None \<Rightarrow> ''-'' @ implName
      | Some e \<Rightarrow> (case languageMap cfg (field e) of Some l \<Rightarrow> l | None \<Rightarrow> field e))"

text \<open>
  An element of the array \<^verbatim>\<open>d\<close>. \<open>byMachine\<close> is \<open>None\<close> where
  \<^verbatim>\<open>Object.entries(data).find(...)\<close> finds no entry; the \<^verbatim>\<open>filter\<close> removes these
  elements.
\<close>

record row = impl_entry +
  iname :: string
  byMachine :: "(string \<rightharpoonup> nat) option"

text \<open>
  \<^verbatim>\<open>array.map(f)\<close> for an \<open>f\<close> that may throw: the first exception ends the loop.
\<close>

fun map_throwing :: "('a \<Rightarrow> error + 'b) \<Rightarrow> 'a list \<Rightarrow> error + 'b list" where
  "map_throwing f [] = Inr []"
| "map_throwing f (x # xs) =
     (case f x of
        Inl e \<Rightarrow> Inl e
      | Inr y \<Rightarrow> (case map_throwing f xs of Inl e \<Rightarrow> Inl e | Inr ys \<Rightarrow> Inr (y # ys)))"

definition mapped_row :: "config \<Rightarrow> matrix \<Rightarrow> string \<Rightarrow> error + row" where
  "mapped_row cfg M ii =
     (case implMap cfg ii of
        None \<Rightarrow> Inl (NotInImpl ii)
      | Some e \<Rightarrow> Inr \<lparr>name = name e, field = fieldToStr cfg ii, iname = ii, byMachine = M ii\<rparr>)"

text \<open>The array \<^verbatim>\<open>d\<close>: ``mapped and filtered data''.\<close>

definition section_d :: "config \<Rightarrow> matrix \<Rightarrow> string list \<Rightarrow> error + row list" where
  "section_d cfg M implementations =
     (case map_throwing (mapped_row cfg M) implementations of
        Inl e \<Rightarrow> Inl e
      | Inr rows \<Rightarrow> Inr (filter (\<lambda>r. byMachine r \<noteq> None) rows))"

text \<open>\<^verbatim>\<open>byMachine[machine]\<close> as a number.\<close>

definition cycles_at :: "row \<Rightarrow> string \<Rightarrow> jsnum" where
  "cycles_at r m =
     (case byMachine r of
        None \<Rightarrow> NaN
      | Some bm \<Rightarrow> (case bm m of None \<Rightarrow> NaN | Some c \<Rightarrow> Fin (real c)))"

text \<open>The value computed for one element in the reduction \<^verbatim>\<open>meanByImplementation\<close>.\<close>

definition geomean :: "config \<Rightarrow> row \<Rightarrow> jsnum" where
  "geomean cfg r =
     (let mul = foldl (\<lambda>a m. js_mul a (cycles_at r m)) (Fin 1) (machineOrder cfg)
      in js_pow mul (js_div (Fin 1) (Fin (real (length (machineOrder cfg))))))"

definition meanByImplementation :: "config \<Rightarrow> row list \<Rightarrow> (string \<times> jsnum) list" where
  "meanByImplementation cfg d =
     foldl (\<lambda>acc r. AList.update (iname r) (geomean cfg r) acc) [] d"

definition smallestMean :: "config \<Rightarrow> row list \<Rightarrow> jsnum" where
  "smallestMean cfg d = Math_min (map snd (meanByImplementation cfg d))"

definition smallestImplByMachine :: "config \<Rightarrow> row list \<Rightarrow> (string \<times> jsnum) list" where
  "smallestImplByMachine cfg d =
     foldl (\<lambda>acc machine. AList.update machine (Math_min (map (\<lambda>r. cycles_at r machine) d)) acc)
       [] (machineOrder cfg)"

text \<open>Reading a property of an object of numbers.\<close>

definition read_prop :: "(string \<times> jsnum) list \<Rightarrow> string \<Rightarrow> jsnum" where
  "read_prop obj k = (case map_of obj k of None \<Rightarrow> NaN | Some v \<Rightarrow> v)"

text \<open>
  \<^verbatim>\<open>FACTOR\<close> is the constant 1000, so the cycles are always printed in thousands.
\<close>

definition printCycles :: "jsnum \<Rightarrow> jsnum \<Rightarrow> string" where
  "printCycles c small =
     (let isSmallest = js_eq c small;
          ratio = toFixed 2 (js_div c small);
          ratioStr = ''{'' @ bs @ ''tiny ('' @ ratio @ ''x)}'';
          cyclesStr = toFixed 0 (js_div c FACTOR) @ ''k'';
          m = (if isSmallest then bs @ ''textbf{'' @ cyclesStr @ '' '' @ ratioStr @ ''}''
               else cyclesStr @ '' '' @ ratioStr)
      in padStart PAD_CYC m)"

text \<open>The cell of a row under a host, and its last cell.\<close>

definition host_cell :: "config \<Rightarrow> row list \<Rightarrow> row \<Rightarrow> string \<Rightarrow> string" where
  "host_cell cfg d r m =
     printCycles (cycles_at r m) (read_prop (smallestImplByMachine cfg d) m)"

definition mean_cell :: "config \<Rightarrow> row list \<Rightarrow> row \<Rightarrow> string" where
  "mean_cell cfg d r =
     printCycles (read_prop (meanByImplementation cfg d) (iname r)) (smallestMean cfg d)"

definition render_row :: "config \<Rightarrow> row list \<Rightarrow> row \<Rightarrow> string" where
  "render_row cfg d r =
     join '' & ''
       (['''', padEnd PAD_NAME (name r), padStart PAD_FIELD (field r)]
        @ map (host_cell cfg d r) (machineOrder cfg)
        @ [mean_cell cfg d r])
     @ '' '' @ bs @ bs"

text \<open>
  \<^verbatim>\<open>CAPTION_MAP[implementations[0].split("/")[1]].heading\<close>: a \<^verbatim>\<open>TypeError\<close> on an empty
  list and on a key without an entry; a first identifier without a second component
  gives the key \<^verbatim>\<open>undefined\<close>.
\<close>

definition section_heading :: "config \<Rightarrow> string list \<Rightarrow> error + string" where
  "section_heading cfg implementations =
     (case implementations of
        [] \<Rightarrow> Inl TypeError
      | first # others \<Rightarrow>
          (let folderFolder = (case split_on (CHR ''/'') first of
                                 a # b # parts \<Rightarrow> b
                               | _ \<Rightarrow> ''undefined'')
           in case CAPTION_MAP cfg folderFolder of
                None \<Rightarrow> Inl TypeError
              | Some heading \<Rightarrow> Inr heading))"

definition multirow :: "nat \<Rightarrow> string \<Rightarrow> string" where
  "multirow n heading =
     bs @ ''multirow{'' @ digits_of n @ ''}{*}{'' @ bs @ ''rotatebox[origin=c]{90}{''
       @ bs @ ''centering '' @ heading @ ''}}''"

text \<open>The lines one element of \<^verbatim>\<open>implOrder\<close> contributes to \<^verbatim>\<open>meat\<close>.\<close>

definition section_lines :: "config \<Rightarrow> matrix \<Rightarrow> string list \<Rightarrow> error + string list" where
  "section_lines cfg M implementations =
     (case section_heading cfg implementations of
        Inl e \<Rightarrow> Inl e
      | Inr heading \<Rightarrow>
          (case section_d cfg M implementations of
             Inl e \<Rightarrow> Inl e
           | Inr d \<Rightarrow>
               Inr ([bs @ ''midrule'', multirow (length implementations) heading]
                    @ map (render_row cfg d) d)))"








section \<open>Reading a rendered cell\<close>



section \<open>Example inputs\<close>

text \<open>
  Two hosts and one section, with the other tables of the source; and matrices for the
  first implementations of that section.
\<close>

definition sandy2x :: string where
  "sandy2x = ''crypto_scalarmult/curve25519/sandy2x''"

definition amd64_64 :: string where
  "amd64_64 = ''crypto_scalarmult/curve25519/amd64-64''"

definition two_hosts :: config where
  "two_hosts = supercop\<lparr>implOrder := [[sandy2x, amd64_64]], machineOrder := [''kivsa'', ''nakhash'']\<rparr>"

definition sandy2x_row :: "(string \<rightharpoonup> nat) \<Rightarrow> row" where
  "sandy2x_row bm =
     \<lparr>name = ''sandy2x~'' @ bs @ ''cite{sandy2x}'', field = ''asm-v'', iname = sandy2x,
      byMachine = Some bm\<rparr>"

definition amd64_64_row :: "(string \<rightharpoonup> nat) \<Rightarrow> row" where
  "amd64_64_row bm =
     \<lparr>name = ''amd64-64~'' @ bs @ ''cite{Chen14}'', field = ''asm'', iname = amd64_64,
      byMachine = Some bm\<rparr>"

text \<open>A log line of a successful run, as the benchmarking harness writes it.\<close>

definition log_line :: "string \<Rightarrow> string \<Rightarrow> string \<Rightarrow> string" where
  "log_line host count i =
     ''20230101 '' @ host @ '' amd64 20230105 crypto_scalarmult timecop_pass try 1234abcd ok ''
       @ count @ '' 789 3400000000 '' @ i @ '' gcc_-O3''"

definition ref10 :: string where
  "ref10 = ''crypto_scalarmult/curve25519/ref10''"


section \<open>Implementations that take part in the report\<close>



section \<open>Example log files\<close>

text \<open>
  The file of the host \<^verbatim>\<open>kivsa\<close> with two runs of one implementation, the file of the host
  \<^verbatim>\<open>nakhash\<close> with one run, a file whose only line names the host \<^verbatim>\<open>kivsa\<close>, and the
  first file with a line of an implementation that no section lists.
\<close>

definition kivsa_data :: string where
  "kivsa_data =
     log_line ''kivsa'' ''5000'' sandy2x @ nl @ log_line ''kivsa'' ''5200'' sandy2x @ nl"

definition nakhash_data :: string where
  "nakhash_data = log_line ''nakhash'' ''2000'' sandy2x @ nl"

definition misfiled_data :: string where
  "misfiled_data = log_line ''kivsa'' ''9000'' sandy2x @ nl"


section \<open>The pattern matcher and the language of the pattern\<close>

lemma plus_matches_iff:
  "(m, r) \<in> set (plus_matches P s) \<longleftrightarrow> s = m @ r \<and> m \<noteq> [] \<and> list_all P m"
proof (induction s arbitrary: m)
  case Nil
  then show ?case by simp
next
  case (Cons c s)
  show ?case
  proof (cases "P c")
    case False
    then show ?thesis by (cases m) auto
  next
    case True
    show ?thesis
    proof (cases m)
      case Nil
      then show ?thesis using True by auto
    next
      case (Cons d m')
      then show ?thesis using True Cons.IH [of m'] by (cases m') auto
    qed
  qed
qed

lemma in_bind_alts:
  "(h, r') \<in> set (bind_alts f alts) \<longleftrightarrow>
     (\<exists>g r g'. h = g @ g' \<and> (g, r) \<in> set alts \<and> (g', r') \<in> set (f r))"
proof (induction f alts rule: bind_alts.induct)
  case (1 f)
  show ?case by simp
next
  case (2 f g r alts)
  have hd: "(h, r') \<in> set (map (\<lambda>(g', r'). (g @ g', r')) (f r)) \<longleftrightarrow>
      (\<exists>g'. h = g @ g' \<and> (g', r') \<in> set (f r))"
    by force
  have "(h, r') \<in> set (bind_alts f ((g, r) # alts)) \<longleftrightarrow>
      (\<exists>g'. h = g @ g' \<and> (g', r') \<in> set (f r)) \<or> (h, r') \<in> set (bind_alts f alts)"
    using hd by simp
  also have "\<dots> \<longleftrightarrow> (\<exists>g0 r0 g'. h = g0 @ g' \<and> (g0, r0) \<in> set ((g, r) # alts) \<and> (g', r') \<in> set (f r0))"
    unfolding "2.IH" by (simp only: set_simps insert_iff prod.inject) blast
  finally show ?case .
qed

inductive_simps derives_Lit: "derives (Lit w) m g"
inductive_simps derives_Plus: "derives (Plus c) m g"
inductive_simps derives_Named: "derives (Named n c) m g"
inductive_simps derives_Seq: "derives (Seq a b) m g"
inductive_simps derives_Alt: "derives (Alt a b) m g"
inductive_simps derives_Opt: "derives (Opt a) m g"

lemma matches_iff:
  "(g, rest) \<in> set (matches r s) \<longleftrightarrow> (\<exists>m. s = m @ rest \<and> derives r m g)"
proof (induction r arbitrary: g rest s)
  case (Lit w)
  show ?case by (auto simp: derives_Lit prefix_def)
next
  case (Plus c)
  show ?case by (auto simp: derives_Plus plus_matches_iff)
next
  case (Named n c)
  show ?case by (auto simp: derives_Named plus_matches_iff)
next
  case (Seq a b)
  show ?case
  proof
    assume "(g, rest) \<in> set (matches (Seq a b) s)"
    then obtain g1 r g2 where g: "g = g1 @ g2" and a: "(g1, r) \<in> set (matches a s)"
      and b: "(g2, rest) \<in> set (matches b r)"
      by (auto simp: in_bind_alts)
    from a obtain m1 where m1: "s = m1 @ r" "derives a m1 g1"
      using Seq.IH(1) by blast
    from b obtain m2 where m2: "r = m2 @ rest" "derives b m2 g2"
      using Seq.IH(2) by blast
    have "s = (m1 @ m2) @ rest" using m1 m2 by simp
    moreover have "derives (Seq a b) (m1 @ m2) g"
      unfolding g using m1 m2 by (intro d_seq)
    ultimately show "\<exists>m. s = m @ rest \<and> derives (Seq a b) m g" by blast
  next
    assume "\<exists>m. s = m @ rest \<and> derives (Seq a b) m g"
    then obtain m where m: "s = m @ rest" "derives (Seq a b) m g" by blast
    from m(2) obtain m1 m2 g1 g2 where parts: "m = m1 @ m2" "g = g1 @ g2"
      "derives a m1 g1" "derives b m2 g2"
      by (auto simp: derives_Seq)
    have "(g1, m2 @ rest) \<in> set (matches a s)"
      using Seq.IH(1) [of g1 "m2 @ rest" s] parts m by auto
    moreover have "(g2, rest) \<in> set (matches b (m2 @ rest))"
      using Seq.IH(2) [of g2 rest "m2 @ rest"] parts by auto
    ultimately show "(g, rest) \<in> set (matches (Seq a b) s)"
      unfolding parts(2) by (auto simp: in_bind_alts)
  qed
next
  case (Alt a b)
  show ?case by (auto simp: derives_Alt Alt.IH)
next
  case (Opt a)
  show ?case by (auto simp: derives_Opt Opt.IH)
qed



lemma exec_at_Some:
  assumes "exec_at r s = Some g"
  shows "\<exists>m rest. s = m @ rest \<and> derives r m g"
proof -
  from assms obtain rest others where "matches r s = (g, rest) # others"
    by (auto simp: exec_at_def split: list.splits prod.splits)
  then have "(g, rest) \<in> set (matches r s)" by simp
  then show ?thesis unfolding matches_iff by blast
qed


lemma exec_Some:
  "exec r s = Some g \<Longrightarrow> \<exists>pre m post. s = pre @ m @ post \<and> derives r m g"
proof (induction s)
  case Nil
  then show ?case using exec_at_Some [of r "[]" g] by auto
next
  case (Cons c s)
  show ?case
  proof (cases "exec_at r (c # s)")
    case (Some g')
    then have "g' = g" using Cons.prems by simp
    then obtain m rest where "c # s = m @ rest" "derives r m g"
      using exec_at_Some Some by blast
    then have "c # s = [] @ m @ rest \<and> derives r m g" by simp
    then show ?thesis by blast
  next
    case None
    then have "exec r s = Some g" using Cons.prems by simp
    then obtain pre m post where "s = pre @ m @ post" "derives r m g"
      using Cons.IH by blast
    then have "c # s = (c # pre) @ m @ post \<and> derives r m g" by simp
    then show ?thesis by blast
  qed
qed

lemma derives_DB_REG_OK_fields:
  assumes "derives DB_REG_OK m g"
  shows "\<exists>i c h. map_of g ''impl'' = Some i \<and> map_of g ''cycles'' = Some c \<and> map_of g ''host'' = Some h"
  using assms
  by (auto simp: DB_REG_OK_def derives_Lit derives_Plus derives_Named derives_Seq derives_Alt derives_Opt)

text \<open>Every match binds the three groups that are kept.\<close>

lemma carry_defined:
  assumes "exec DB_REG_OK line = Some g"
  shows "carry g \<noteq> None"
proof -
  from exec_Some [OF assms] obtain pre m post where "derives DB_REG_OK m g" by blast
  from derives_DB_REG_OK_fields [OF this] obtain i c h where
    "map_of g ''impl'' = Some i" "map_of g ''cycles'' = Some c" "map_of g ''host'' = Some h"
    by blast
  then show ?thesis by (simp add: carry_def)
qed

lemma includes_str_iff: "includes_str s w \<longleftrightarrow> (\<exists>pre post. s = pre @ w @ post)"
proof (induction s)
  case Nil
  show ?case by auto
next
  case (Cons c s)
  show ?case
  proof
    assume "includes_str (c # s) w"
    then consider "prefix w (c # s)" | "includes_str s w" by auto
    then show "\<exists>pre post. c # s = pre @ w @ post"
    proof cases
      case 1
      then obtain post where "c # s = [] @ w @ post" by (auto simp: prefix_def)
      then show ?thesis by blast
    next
      case 2
      then obtain pre post where "s = pre @ w @ post" using Cons.IH by blast
      then have "c # s = (c # pre) @ w @ post" by simp
      then show ?thesis by blast
    qed
  next
    assume "\<exists>pre post. c # s = pre @ w @ post"
    then obtain pre post where eq: "c # s = pre @ w @ post" by blast
    show "includes_str (c # s) w"
    proof (cases pre)
      case Nil
      then have "prefix w (c # s)" using eq by (simp add: prefix_def)
      then show ?thesis by simp
    next
      case (Cons d pre')
      then have "s = pre' @ w @ post" using eq by simp
      then show ?thesis using Cons.IH by auto
    qed
  qed
qed

lemmas parse_eval = parse_line_def exec_at_def DB_REG_OK_def carry_def Number_digits_def
  is_digit_def is_word_def

section \<open>The Record Parser\<close>




section \<open>Evaluating the number formatting\<close>

lemma digit_char_simps:
  "digit_char 0 = CHR ''0''" "digit_char 1 = CHR ''1''" "digit_char 2 = CHR ''2''"
  "digit_char 3 = CHR ''3''" "digit_char 4 = CHR ''4''" "digit_char 5 = CHR ''5''"
  "digit_char 6 = CHR ''6''" "digit_char 7 = CHR ''7''" "digit_char 8 = CHR ''8''"
  "digit_char 9 = CHR ''9''" "digit_char (Suc 0) = CHR ''1''"
  by code_simp+

lemma digits_of_small: "n < 10 \<Longrightarrow> digits_of n = [digit_char n]"
  by (simp add: digits_of.simps)

lemma digits_of_large: "10 \<le> n \<Longrightarrow> digits_of n = digits_of (n div 10) @ [digit_char (n mod 10)]"
  by (subst digits_of.simps) simp

lemmas num_eval = fixed_digits_def digits_of_small digits_of_large digit_char_simps


lemma digit_char_nth: "n < 10 \<Longrightarrow> digit_char n = ''0123456789'' ! n"
proof -
  assume "n < 10"
  then have "n \<in> {0, 1, 2, 3, 4, 5, 6, 7, 8, 9}" by auto
  then show ?thesis using digit_char_simps by auto
qed

section \<open>Sequences that may throw\<close>

lemma map_throwing_Inr:
  "map_throwing f xs = Inr ys \<Longrightarrow> list_all2 (\<lambda>x y. f x = Inr y) xs ys"
  by (induction xs arbitrary: ys) (auto split: sum.splits)



section \<open>The rows of a section\<close>

lemma list_all2_in_right:
  "list_all2 P xs ys \<Longrightarrow> y \<in> set ys \<Longrightarrow> \<exists>x\<in>set xs. P x y"
  by (induction rule: list_all2_induct) auto

lemma section_d_rows:
  assumes "section_d cfg M impls = Inr d" and "r \<in> set d"
  shows "iname r \<in> set impls" and "mapped_row cfg M (iname r) = Inr r"
    and "byMachine r = M (iname r)" and "M (iname r) \<noteq> None"
proof -
  from assms(1) obtain rows where rows: "map_throwing (mapped_row cfg M) impls = Inr rows"
    and d: "d = filter (\<lambda>r. byMachine r \<noteq> None) rows"
    by (auto simp: section_d_def split: sum.splits)
  have all: "list_all2 (\<lambda>x y. mapped_row cfg M x = Inr y) impls rows"
    using map_throwing_Inr [OF rows] .
  have r: "r \<in> set rows" "byMachine r \<noteq> None" using assms(2) d by auto
  then obtain ii where ii: "ii \<in> set impls" "mapped_row cfg M ii = Inr r"
    using list_all2_in_right [OF all] by blast
  then have i: "iname r = ii" "byMachine r = M ii"
    by (auto simp: mapped_row_def split: option.splits)
  show "iname r \<in> set impls" using i ii by simp
  show "mapped_row cfg M (iname r) = Inr r" using i ii by simp
  show "byMachine r = M (iname r)" using i by simp
  show "M (iname r) \<noteq> None" using i r by simp
qed

lemma section_d_inames:
  assumes "section_d cfg M impls = Inr d"
  shows "map iname d = filter (\<lambda>ii. M ii \<noteq> None) impls"
proof -
  from assms obtain rows where rows: "map_throwing (mapped_row cfg M) impls = Inr rows"
    and d: "d = filter (\<lambda>r. byMachine r \<noteq> None) rows"
    by (auto simp: section_d_def split: sum.splits)
  have "list_all2 (\<lambda>x y. mapped_row cfg M x = Inr y) impls rows"
    using map_throwing_Inr [OF rows] .
  then have "map iname (filter (\<lambda>r. byMachine r \<noteq> None) rows) = filter (\<lambda>ii. M ii \<noteq> None) impls"
  proof (induction impls rows rule: list_all2_induct)
    case Nil
    show ?case by simp
  next
    case (Cons x xs y ys)
    then show ?case by (auto simp: mapped_row_def split: option.splits)
  qed
  then show ?thesis using d by simp
qed

lemma cycles_at_stored:
  assumes "section_d cfg M impls = Inr d" and "r \<in> set d"
  shows "cycles_at r m = (case stored M (iname r) m of None \<Rightarrow> NaN | Some c \<Rightarrow> Fin (real c))"
  using section_d_rows(3,4) [OF assms]
  by (auto simp: cycles_at_def stored_def split: option.splits)

section \<open>The geometric mean\<close>


lemma foldl_js_mul_NaN_start: "foldl (\<lambda>a m. js_mul a (f m)) NaN ms = NaN"
  by (induction ms) simp_all

lemma js_mul_NaN_right: "js_mul x NaN = NaN"
  by (cases x) simp_all

lemma foldl_js_mul_NaN:
  "m \<in> set ms \<Longrightarrow> f m = NaN \<Longrightarrow> foldl (\<lambda>a m. js_mul a (f m)) x ms = NaN"
proof (induction ms arbitrary: x)
  case Nil
  then show ?case by simp
next
  case (Cons k ms)
  show ?case
  proof (cases "k = m")
    case True
    then show ?thesis using Cons.prems by (simp add: js_mul_NaN_right foldl_js_mul_NaN_start)
  next
    case False
    then show ?thesis using Cons by simp
  qed
qed


lemma geomean_NaN:
  assumes "m \<in> set (machineOrder cfg)" and "cycles_at r m = NaN"
  shows "geomean cfg r = NaN"
proof -
  have "foldl (\<lambda>a m. js_mul a (cycles_at r m)) (Fin 1) (machineOrder cfg) = NaN"
    using foldl_js_mul_NaN [OF assms(1), of "cycles_at r"] assms(2) by simp
  moreover have "0 < length (machineOrder cfg)" using assms(1) by (cases "machineOrder cfg") auto
  ultimately show ?thesis by (simp add: geomean_def)
qed

lemma map_of_foldl_update:
  assumes "\<forall>r\<in>set d. \<forall>r'\<in>set d. k r = k r' \<longrightarrow> f r = f r'" and "r \<in> set d"
  shows "map_of (foldl (\<lambda>acc r. AList.update (k r) (f r) acc) acc0 d) (k r) = Some (f r)"
  using assms
proof (induction d rule: rev_induct)
  case Nil
  then show ?case by simp
next
  case (snoc x xs)
  show ?case
  proof (cases "k x = k r")
    case True
    then have "f x = f r" using snoc.prems by auto
    then show ?thesis using True by (simp add: update_conv')
  next
    case False
    then have r: "r \<in> set xs" using snoc.prems by auto
    have pre: "\<forall>r\<in>set xs. \<forall>r'\<in>set xs. k r = k r' \<longrightarrow> f r = f r'"
      using snoc.prems(1) by (metis Un_iff set_append)
    have "map_of (foldl (\<lambda>acc r. AList.update (k r) (f r) acc) acc0 xs) (k r) = Some (f r)"
      by (rule snoc.IH [OF pre r])
    then show ?thesis using False by (simp add: update_conv')
  qed
qed

lemma mean_of_row:
  assumes "section_d cfg M impls = Inr d" and "r \<in> set d"
  shows "read_prop (meanByImplementation cfg d) (iname r) = geomean cfg r"
proof -
  have c: "\<forall>a\<in>set d. \<forall>b\<in>set d. iname a = iname b \<longrightarrow> geomean cfg a = geomean cfg b"
  proof (intro ballI impI)
    fix a b
    assume a: "a \<in> set d" and b: "b \<in> set d" and eq: "iname a = iname b"
    have "(Inr a :: error + row) = mapped_row cfg M (iname a)"
      by (rule sym) (rule section_d_rows(2) [OF assms(1) a])
    also have "\<dots> = mapped_row cfg M (iname b)" by (simp only: eq)
    also have "\<dots> = Inr b" by (rule section_d_rows(2) [OF assms(1) b])
    finally have "a = b" by (simp only: sum.inject)
    then show "geomean cfg a = geomean cfg b" by (simp only:)
  qed
  have "map_of (meanByImplementation cfg d) (iname r) = Some (geomean cfg r)"
    unfolding meanByImplementation_def by (rule map_of_foldl_update [OF c assms(2)])
  then show ?thesis by (simp add: read_prop_def)
qed

lemmas table_eval = two_hosts_def supercop_def supercop_implMap_def supercop_languageMap_def
  supercop_CAPTION_MAP_def supercop_machinenameMap_def sandy2x_def amd64_64_def
  sandy2x_row_def amd64_64_row_def

lemmas section_eval = section_d_def mapped_row_def fieldToStr_def stored_def

section \<open>The summary column\<close>



lemma replicate_numeral: "replicate (numeral k) x = x # replicate (pred_numeral k) x"
  by (simp add: numeral_eq_Suc)

lemmas cell_eval = printCycles_def FACTOR_def PAD_CYC_def PAD_NAME_def PAD_FIELD_def padStart_def
  padEnd_def bs_def nl_def replicate_numeral

lemma printCycles_NaN:
  "printCycles NaN small = padStart PAD_CYC (''NaNk {'' @ bs @ ''tiny (NaNx)}'')"
  by (simp add: printCycles_def FACTOR_def)

text \<open>
  Claim C3, as amended. An implementation rendered in a section that lacks a recorded
  value for a host of the host ordering has the summary value \<^verbatim>\<open>NaN\<close>: nothing fails,
  the missing value counts neither as zero nor as one, and the summary cell of its row
  reads \<^verbatim>\<open>NaNk\<close> with the ratio \<^verbatim>\<open>NaNx\<close>.
\<close>

theorem missing_host_mean_is_NaN:
  assumes "section_d cfg M impls = Inr d" and "r \<in> set d" and "m \<in> set (machineOrder cfg)"
    and "stored M (iname r) m = None"
  shows "read_prop (meanByImplementation cfg d) (iname r) = NaN \<and>
    mean_cell cfg d r = padStart PAD_CYC (''NaNk {'' @ bs @ ''tiny (NaNx)}'')"
proof -
  have "cycles_at r m = NaN"
    using assms(4) by (simp add: cycles_at_stored [OF assms(1,2)])
  then have "geomean cfg r = NaN" using assms(3) geomean_NaN by blast
  then have "read_prop (meanByImplementation cfg d) (iname r) = NaN"
    by (simp only: mean_of_row [OF assms(1,2)])
  then show ?thesis by (simp add: mean_cell_def printCycles_NaN)
qed

text \<open>One implementation with a value for the first of two hosts only.\<close>

theorem missing_host_mean_is_NaN_witness:
  "section_d two_hosts [sandy2x \<mapsto> [''kivsa'' \<mapsto> 5000]] [sandy2x, amd64_64]
     = Inr [sandy2x_row [''kivsa'' \<mapsto> 5000]] \<and>
   stored [sandy2x \<mapsto> [''kivsa'' \<mapsto> 5000]] sandy2x ''nakhash'' = None \<and>
   read_prop (meanByImplementation two_hosts [sandy2x_row [''kivsa'' \<mapsto> 5000]]) sandy2x = NaN \<and>
   mean_cell two_hosts [sandy2x_row [''kivsa'' \<mapsto> 5000]] (sandy2x_row [''kivsa'' \<mapsto> 5000])
     = ''NaNk {'' @ bs @ ''tiny (NaNx)}''"
proof -
  let ?M = "[sandy2x \<mapsto> [''kivsa'' \<mapsto> (5000::nat)]]"
  let ?r = "sandy2x_row [''kivsa'' \<mapsto> 5000]"
  have d: "section_d two_hosts ?M [sandy2x, amd64_64] = Inr [?r]"
    by (simp add: section_eval table_eval)
  have r: "?r \<in> set [?r]" by simp
  have i: "iname ?r = sandy2x" by (simp add: sandy2x_row_def)
  have m: "''nakhash'' \<in> set (machineOrder two_hosts)" by (simp add: two_hosts_def)
  have s: "stored ?M (iname ?r) ''nakhash'' = None" by (simp add: i stored_def)
  have p: "padStart PAD_CYC (''NaNk {'' @ bs @ ''tiny (NaNx)}'') = ''NaNk {'' @ bs @ ''tiny (NaNx)}''"
    by (simp add: cell_eval)
  show ?thesis using missing_host_mean_is_NaN [OF d r m s] d s i p by simp
qed

text \<open>
  Claim C3 as stated fails: for the same input the section is generated without an
  exception, and the row has a summary cell.
\<close>

theorem incomplete_data_counterexample:
  "section_lines two_hosts [sandy2x \<mapsto> [''kivsa'' \<mapsto> 5000]] [sandy2x, amd64_64] =
     Inr [bs @ ''midrule'',
          bs @ ''multirow{2}{*}{'' @ bs @ ''rotatebox[origin=c]{90}{'' @ bs @ ''centering Curve25519}}'',
          '' & sandy2x~'' @ bs @ ''cite{sandy2x}              &    asm-v & ''
            @ bs @ ''textbf{5k {'' @ bs @ ''tiny (1.00x)}} & NaNk {'' @ bs @ ''tiny (NaNx)} & NaNk {''
            @ bs @ ''tiny (NaNx)} '' @ bs @ bs]"
  by (simp add: section_lines_def section_heading_def multirow_def render_row_def host_cell_def
      mean_cell_def read_prop_def smallestImplByMachine_def smallestMean_def
      meanByImplementation_def geomean_def cycles_at_def Math_min_def section_eval table_eval
      cell_eval num_eval digit_char_nth)

section \<open>The smallest value of a column\<close>










section \<open>Reading the emphasis of a cell\<close>
















section \<open>Grouping and the smallest element\<close>

lemma groupBy_snoc:
  "groupBy key (xs @ [x]) =
     (case map_of (groupBy key xs) (key x) of
        None \<Rightarrow> groupBy key xs @ [(key x, [x])]
      | Some vs \<Rightarrow> AList.update (key x) (vs @ [x]) (groupBy key xs))"
  unfolding groupBy_def by simp

lemma map_of_groupBy:
  "map_of (groupBy key xs) k =
     (if k \<in> key ` set xs then Some (filter (\<lambda>x. key x = k) xs) else None)"
proof (induction xs arbitrary: k rule: rev_induct)
  case Nil
  show ?case by (simp add: groupBy_def)
next
  case (snoc x xs)
  show ?case
  proof (cases "key x \<in> key ` set xs")
    case True
    then have "groupBy key (xs @ [x]) =
        AList.update (key x) (filter (\<lambda>y. key y = key x) xs @ [x]) (groupBy key xs)"
      by (simp add: groupBy_snoc snoc.IH)
    then show ?thesis using snoc.IH by (auto simp: update_conv')
  next
    case False
    then have "groupBy key (xs @ [x]) = groupBy key xs @ [(key x, [x])]"
      by (simp add: groupBy_snoc snoc.IH)
    moreover have "filter (\<lambda>y. key y = key x) xs = []"
      using False by (auto simp: filter_empty_conv image_iff)
    ultimately show ?thesis using snoc.IH False by (auto simp: map_add_def)
  qed
qed

lemma distinct_groupBy: "distinct (map fst (groupBy key xs))"
proof (induction xs rule: rev_induct)
  case Nil
  show ?case by (simp add: groupBy_def)
next
  case (snoc x xs)
  show ?case
  proof (cases "map_of (groupBy key xs) (key x)")
    case None
    then have "key x \<notin> fst ` set (groupBy key xs)" by (simp add: map_of_eq_None_iff)
    then show ?thesis using snoc.IH None by (simp add: groupBy_snoc)
  next
    case (Some vs)
    then show ?thesis using snoc.IH by (simp add: groupBy_snoc distinct_update)
  qed
qed

lemma foldl_best:
  fixes f :: "'a \<Rightarrow> nat"
  shows "foldl (\<lambda>best y. if f y < f best then y else best) x xs \<in> set (x # xs) \<and>
   (\<forall>y\<in>set (x # xs). f (foldl (\<lambda>best y. if f y < f best then y else best) x xs) \<le> f y)"
proof (induction xs arbitrary: x)
  case Nil
  show ?case by simp
next
  case (Cons a xs)
  let ?b = "if f a < f x then a else x"
  have ih: "foldl (\<lambda>best y. if f y < f best then y else best) ?b xs \<in> set (?b # xs) \<and>
    (\<forall>y\<in>set (?b # xs). f (foldl (\<lambda>best y. if f y < f best then y else best) ?b xs) \<le> f y)"
    by (rule Cons.IH)
  have b: "?b \<in> {a, x}" "f ?b \<le> f a" "f ?b \<le> f x" by auto
  let ?r = "foldl (\<lambda>best y. if f y < f best then y else best) ?b xs"
  have r: "?r \<in> set (?b # xs)" "\<forall>y\<in>set (?b # xs). f ?r \<le> f y" using ih by blast+
  have "f ?r \<le> f ?b" using r(2) by simp
  then have "f ?r \<le> f a" "f ?r \<le> f x" using b(2,3) by linarith+
  moreover have "?r \<in> set (x # a # xs)" using r(1) b(1) by auto
  moreover have "\<forall>y\<in>set xs. f ?r \<le> f y" using r(2) by simp
  ultimately show ?case by simp
qed

lemma minBy_least:
  fixes f :: "'a \<Rightarrow> nat"
  assumes "vs \<noteq> []"
  shows "\<exists>ob. minBy f vs = Some ob \<and> ob \<in> set vs \<and> f ob = Min (f ` set vs)"
proof -
  from assms obtain x xs where vs: "vs = x # xs" by (cases vs) auto
  let ?ob = "foldl (\<lambda>best y. if f y < f best then y else best) x xs"
  have ob: "?ob \<in> set vs" "\<forall>y\<in>set vs. f ?ob \<le> f y" using foldl_best [of f x xs] vs by blast+
  have "f ?ob = Min (f ` set vs)"
  proof (rule sym, rule Min_eqI)
    show "finite (f ` set vs)" by simp
    show "f ?ob \<in> f ` set vs" using ob(1) by blast
    show "\<And>y. y \<in> f ` set vs \<Longrightarrow> f ?ob \<le> y" using ob(2) by auto
  qed
  then show ?thesis using ob(1) vs by simp
qed

section \<open>What one file adds to the matrix\<close>

lemma foldl_groups:
  "distinct (map fst gs) \<Longrightarrow>
     foldl (\<lambda>acc (i, vs). acc(i := h vs (acc i))) acc gs k =
       (case map_of gs k of None \<Rightarrow> acc k | Some vs \<Rightarrow> h vs (acc k))"
proof (induction gs arbitrary: acc)
  case Nil
  show ?case by simp
next
  case (Cons g gs)
  obtain i vs where g: "g = (i, vs)" by (cases g)
  have d: "distinct (map fst gs)" and ni: "i \<notin> fst ` set gs" using Cons.prems g by auto
  have "foldl (\<lambda>acc (i, vs). acc(i := h vs (acc i))) acc (g # gs) k =
      (case map_of gs k of None \<Rightarrow> (acc(i := h vs (acc i))) k
       | Some ws \<Rightarrow> h ws ((acc(i := h vs (acc i))) k))"
    using Cons.IH [OF d, of "acc(i := h vs (acc i))"] unfolding g
    by (simp only: foldl_Cons prod.case)
  also have "\<dots> = (case map_of (g # gs) k of None \<Rightarrow> acc k | Some ws \<Rightarrow> h ws (acc k))"
  proof (cases "k = i")
    case True
    then have "map_of gs k = None" using ni by (simp add: map_of_eq_None_iff)
    then show ?thesis using True g by simp
  next
    case False
    then have "(acc(i := h vs (acc i))) k = acc k" by simp
    then show ?thesis using False g by (simp split: option.splits)
  qed
  finally show ?case .
qed

lemma add_file_step:
  "(case minBy cycles vs of None \<Rightarrow> acc | Some ob \<Rightarrow> set_path acc i (machine ob) (cycles ob)) =
     acc(i := entry_after vs (acc i))"
  by (cases "minBy cycles vs") (auto simp: entry_after_def set_path_def)

lemma add_file_at:
  "add_file acc obs i =
     (if i \<in> impl ` set obs then entry_after (filter (\<lambda>ob. impl ob = i) obs) (acc i) else acc i)"
proof -
  have "add_file acc obs = foldl (\<lambda>acc (i, vs). acc(i := entry_after vs (acc i))) acc (groupBy impl obs)"
    unfolding add_file_def by (simp only: add_file_step)
  then have "add_file acc obs i =
      (case map_of (groupBy impl obs) i of None \<Rightarrow> acc i | Some vs \<Rightarrow> entry_after vs (acc i))"
    by (simp only: foldl_groups [OF distinct_groupBy])
  then show ?thesis by (simp add: map_of_groupBy)
qed

lemma entry_after_nonempty:
  assumes "vs \<noteq> []"
  shows "\<exists>ob. ob \<in> set vs \<and> cycles ob = Min (cycles ` set vs) \<and>
    entry_after vs old =
      Some ((case old of None \<Rightarrow> Map.empty | Some bm \<Rightarrow> bm)(machine ob \<mapsto> cycles ob))"
proof -
  from minBy_least [OF assms, of cycles] obtain ob where
    "minBy cycles vs = Some ob" "ob \<in> set vs" "cycles ob = Min (cycles ` set vs)" by blast
  then show ?thesis by (auto simp: entry_after_def)
qed

lemma group_nonempty: "i \<in> impl ` set obs \<Longrightarrow> filter (\<lambda>ob. impl ob = i) obs \<noteq> []"
  by (auto simp: filter_empty_conv)

lemma entry_after_defined: "vs \<noteq> [] \<Longrightarrow> entry_after vs old \<noteq> None"
proof -
  assume "vs \<noteq> []"
  then obtain ob where "minBy cycles vs = Some ob" using minBy_least [of vs cycles] by blast
  then show ?thesis by (simp add: entry_after_def)
qed

lemma add_file_defined:
  "add_file acc obs i \<noteq> None \<longleftrightarrow> acc i \<noteq> None \<or> i \<in> impl ` set obs"
proof (cases "i \<in> impl ` set obs")
  case True
  have "entry_after (filter (\<lambda>ob. impl ob = i) obs) (acc i) \<noteq> None"
    by (rule entry_after_defined [OF group_nonempty [OF True]])
  then have "add_file acc obs i \<noteq> None" using True by (simp add: add_file_at)
  then show ?thesis using True by simp
next
  case False
  then have "add_file acc obs i = acc i" by (simp only: add_file_at if_False)
  then show ?thesis using False by simp
qed

lemma dom_add_file: "dom (add_file acc obs) = dom acc \<union> impl ` set obs"
proof (rule set_eqI)
  fix i
  have "i \<in> dom (add_file acc obs) \<longleftrightarrow> add_file acc obs i \<noteq> None" by (rule domIff)
  also have "\<dots> \<longleftrightarrow> acc i \<noteq> None \<or> i \<in> impl ` set obs" by (rule add_file_defined)
  also have "\<dots> \<longleftrightarrow> i \<in> dom acc \<union> impl ` set obs" by (simp only: Un_iff domIff)
  finally show "i \<in> dom (add_file acc obs) \<longleftrightarrow> i \<in> dom acc \<union> impl ` set obs" .
qed

lemma stored_add_file:
  assumes tag: "\<forall>ob\<in>set obs. machine ob = h"
  shows "stored (add_file acc obs) i m =
    (if {ob \<in> set obs. impl ob = i \<and> machine ob = m} = {} then stored acc i m
     else Some (Min (cycles ` {ob \<in> set obs. impl ob = i \<and> machine ob = m})))"
proof (cases "i \<in> impl ` set obs")
  case False
  then have "{ob \<in> set obs. impl ob = i \<and> machine ob = m} = {}" by auto
  then show ?thesis using False by (simp add: stored_def add_file_at)
next
  case True
  let ?g = "filter (\<lambda>ob. impl ob = i) obs"
  from entry_after_nonempty [OF group_nonempty [OF True], of "acc i"] obtain ob where
    ob: "ob \<in> set ?g" "cycles ob = Min (cycles ` set ?g)"
    and e: "entry_after ?g (acc i) =
      Some ((case acc i of None \<Rightarrow> Map.empty | Some bm \<Rightarrow> bm)(machine ob \<mapsto> cycles ob))"
    by blast
  have mo: "machine ob = h" using ob(1) tag by simp
  have st: "stored (add_file acc obs) i m =
      ((case acc i of None \<Rightarrow> Map.empty | Some bm \<Rightarrow> bm)(h \<mapsto> Min (cycles ` set ?g))) m"
    using True e ob(2) mo by (simp add: stored_def add_file_at)
  show ?thesis
  proof (cases "m = h")
    case True
    have k: "{ob \<in> set obs. impl ob = i \<and> machine ob = m} = set ?g" using tag True by auto
    have ne: "set ?g \<noteq> {}" using ob(1) by auto
    have "stored (add_file acc obs) i m = Some (Min (cycles ` set ?g))" using st True by simp
    then show ?thesis unfolding k by (simp only: ne if_False)
  next
    case False
    then have "{ob \<in> set obs. impl ob = i \<and> machine ob = m} = {}" using tag by auto
    moreover have "((case acc i of None \<Rightarrow> Map.empty | Some bm \<Rightarrow> bm)(h \<mapsto> Min (cycles ` set ?g))) m
        = stored acc i m"
      using False by (simp add: stored_def split: option.splits)
    ultimately show ?thesis using st by (simp only: if_True simp_thms)
  qed
qed

lemma file_observations_simps:
  "file_observations [] = []"
  "file_observations ((hostname, None) # rest) = file_observations rest"
  "file_observations ((hostname, Some content) # rest) = datafile content @ file_observations rest"
  by (simp_all add: file_observations_def)

lemma in_file_observations:
  "ob \<in> set (file_observations files) \<longleftrightarrow>
     (\<exists>hostname content. (hostname, Some content) \<in> set files \<and> ob \<in> set (datafile content))"
proof (induction files)
  case Nil
  show ?case by (simp add: file_observations_simps)
next
  case (Cons f files)
  obtain h c where f: "f = (h, c)" by (cases f)
  show ?case
  proof (cases c)
    case None
    then show ?thesis using Cons.IH f by (auto simp: file_observations_simps)
  next
    case (Some content)
    then show ?thesis using Cons.IH f by (auto simp: file_observations_simps)
  qed
qed

lemma data_reduce_dom:
  "data_reduce acc files = Inr M \<Longrightarrow> dom M = dom acc \<union> impl ` set (file_observations files)"
proof (induction acc files rule: data_reduce.induct)
  case (1 acc)
  then show ?case by (simp add: file_observations_simps)
next
  case (2 acc hostname rest)
  then show ?case by simp
next
  case (3 acc hostname content rest)
  then have "dom M = dom (add_file acc (datafile content)) \<union> impl ` set (file_observations rest)"
    by simp
  then show ?case by (simp add: dom_add_file file_observations_simps image_Un Un_assoc)
qed

lemma data_reduce_stored:
  assumes "data_reduce acc files = Inr M"
    and "distinct (map fst files)"
    and "\<forall>(hostname, file)\<in>set files. \<forall>content. file = Some content \<longrightarrow>
           (\<forall>ob\<in>set (datafile content). machine ob = hostname)"
  shows "stored M i m =
    (if {ob \<in> set (file_observations files). impl ob = i \<and> machine ob = m} = {} then stored acc i m
     else Some (Min (cycles ` {ob \<in> set (file_observations files). impl ob = i \<and> machine ob = m})))"
  using assms
proof (induction acc files rule: data_reduce.induct)
  case (1 acc)
  then show ?case by (simp add: file_observations_simps)
next
  case (2 acc hostname rest)
  then show ?case by simp
next
  case (3 acc hostname content rest)
  let ?obs = "datafile content"
  let ?K = "\<lambda>xs. {ob \<in> set xs. impl ob = i \<and> machine ob = m}"
  have tag: "\<forall>ob\<in>set ?obs. machine ob = hostname" using "3.prems"(3) by auto
  have rest_tag: "\<forall>ob\<in>set (file_observations rest). machine ob \<noteq> hostname"
  proof
    fix ob
    assume "ob \<in> set (file_observations rest)"
    then obtain h c where hc: "(h, Some c) \<in> set rest" "ob \<in> set (datafile c)"
      unfolding in_file_observations by blast
    then have "machine ob = h" using "3.prems"(3) by auto
    moreover have "h \<noteq> hostname" using hc(1) "3.prems"(2) by (auto simp: image_iff)
    ultimately show "machine ob \<noteq> hostname" by simp
  qed
  have red: "data_reduce (add_file acc ?obs) rest = Inr M" using "3.prems"(1) by simp
  have dist: "distinct (map fst rest)" using "3.prems"(2) by simp
  have tags: "\<forall>(hostname, file)\<in>set rest. \<forall>content. file = Some content \<longrightarrow>
           (\<forall>ob\<in>set (datafile content). machine ob = hostname)"
    using "3.prems"(3) by auto
  have ih: "stored M i m =
    (if ?K (file_observations rest) = {} then stored (add_file acc ?obs) i m
     else Some (Min (cycles ` ?K (file_observations rest))))"
    by (rule "3.IH" [OF red dist tags])
  have split: "?K (file_observations ((hostname, Some content) # rest)) =
      ?K ?obs \<union> ?K (file_observations rest)"
    by (auto simp: file_observations_simps)
  show ?case
  proof (cases "?K (file_observations rest) = {}")
    case True
    have kt: "?K (file_observations ((hostname, Some content) # rest)) = ?K ?obs"
      by (simp only: split True Un_empty_right)
    have "stored M i m = stored (add_file acc ?obs) i m"
      unfolding ih using True by simp
    also have "\<dots> = (if ?K ?obs = {} then stored acc i m else Some (Min (cycles ` ?K ?obs)))"
      by (rule stored_add_file [OF tag])
    finally show ?thesis unfolding kt .
  next
    case False
    then have "m \<noteq> hostname" using rest_tag by auto
    then have "?K ?obs = {}" using tag by auto
    then have kt: "?K (file_observations ((hostname, Some content) # rest)) =
        ?K (file_observations rest)"
      by (simp only: split Un_empty_left)
    have "stored M i m = Some (Min (cycles ` ?K (file_observations rest)))"
      unfolding ih by (simp only: False if_False)
    then show ?thesis unfolding kt by (simp only: False if_False)
  qed
qed

section \<open>Example log files\<close>

lemmas line_eval = log_line_def sandy2x_def amd64_64_def ref10_def

lemma parse_log_line_sandy2x_kivsa_5000:
  "parse_line (log_line ''kivsa'' ''5000'' sandy2x) =
     Some \<lparr>impl = sandy2x, cycles = 5000, machine = ''kivsa''\<rparr>"
  by (simp add: line_eval parse_eval)

lemma parse_log_line_sandy2x_kivsa_5200:
  "parse_line (log_line ''kivsa'' ''5200'' sandy2x) =
     Some \<lparr>impl = sandy2x, cycles = 5200, machine = ''kivsa''\<rparr>"
  by (simp add: line_eval parse_eval)

lemma parse_log_line_sandy2x_kivsa_9000:
  "parse_line (log_line ''kivsa'' ''9000'' sandy2x) =
     Some \<lparr>impl = sandy2x, cycles = 9000, machine = ''kivsa''\<rparr>"
  by (simp add: line_eval parse_eval)

lemma parse_log_line_sandy2x_nakhash_2000:
  "parse_line (log_line ''nakhash'' ''2000'' sandy2x) =
     Some \<lparr>impl = sandy2x, cycles = 2000, machine = ''nakhash''\<rparr>"
  by (simp add: line_eval parse_eval)

lemma parse_log_line_ref10_kivsa_7000:
  "parse_line (log_line ''kivsa'' ''7000'' ref10) =
     Some \<lparr>impl = ref10, cycles = 7000, machine = ''kivsa''\<rparr>"
  by (simp add: line_eval parse_eval)

section \<open>The observations of a file, line by line\<close>

lemma datafile_lines: "datafile content = List.map_filter parse_line (split_on (CHR 0x0A) content)"
proof -
  have "List.map_filter carry (List.map_filter (exec DB_REG_OK)
          (filter (\<lambda>line. \<not> includes_str line ''objsize'') ls)) = List.map_filter parse_line ls" for ls
    by (induction ls) (auto simp: List.map_filter_simps parse_line_def split: option.splits)
  then show ?thesis by (simp add: datafile_def)
qed

lemma no_newline_split: "CHR 0x0A \<notin> set s \<Longrightarrow> split_on (CHR 0x0A) s = [s]"
  by (induction s) (auto split: list.splits)

lemma split_on_append:
  "c \<notin> set a \<Longrightarrow> split_on c (a @ c # s) = a # split_on c s"
  by (induction a) (auto split: list.splits)


lemma parse_line_empty: "parse_line [] = None"
  by (simp add: parse_eval)

lemma log_line_no_newline:
  "CHR 0x0A \<notin> set host \<Longrightarrow> CHR 0x0A \<notin> set count \<Longrightarrow> CHR 0x0A \<notin> set i \<Longrightarrow>
     CHR 0x0A \<notin> set (log_line host count i)"
  by (simp add: log_line_def)

lemma datafile_one_line:
  "CHR 0x0A \<notin> set a \<Longrightarrow> datafile (a @ nl) = List.map_filter parse_line [a, []]"
  using split_on_append [of "CHR 0x0A" a "[]"] by (simp add: datafile_lines nl_def)

lemma datafile_two_lines:
  "CHR 0x0A \<notin> set a \<Longrightarrow> CHR 0x0A \<notin> set b \<Longrightarrow>
     datafile (a @ nl @ b @ nl) = List.map_filter parse_line [a, b, []]"
  using split_on_append [of "CHR 0x0A" a "b @ nl"] split_on_append [of "CHR 0x0A" b "[]"]
  by (simp add: datafile_lines nl_def)


lemmas parse_examples = parse_line_empty parse_log_line_sandy2x_kivsa_5000
  parse_log_line_sandy2x_kivsa_5200 parse_log_line_sandy2x_kivsa_9000
  parse_log_line_sandy2x_nakhash_2000 parse_log_line_ref10_kivsa_7000

lemma datafile_kivsa_data:
  "datafile kivsa_data =
     [\<lparr>impl = sandy2x, cycles = 5000, machine = ''kivsa''\<rparr>,
      \<lparr>impl = sandy2x, cycles = 5200, machine = ''kivsa''\<rparr>]"
  unfolding kivsa_data_def
  by (subst datafile_two_lines)
    (simp_all add: log_line_no_newline sandy2x_def List.map_filter_simps parse_examples [unfolded sandy2x_def])

lemma datafile_nakhash_data:
  "datafile nakhash_data = [\<lparr>impl = sandy2x, cycles = 2000, machine = ''nakhash''\<rparr>]"
  unfolding nakhash_data_def
  by (subst datafile_one_line)
    (simp_all add: log_line_no_newline sandy2x_def List.map_filter_simps parse_examples [unfolded sandy2x_def])

lemma datafile_misfiled_data:
  "datafile misfiled_data = [\<lparr>impl = sandy2x, cycles = 9000, machine = ''kivsa''\<rparr>]"
  unfolding misfiled_data_def
  by (subst datafile_one_line)
    (simp_all add: log_line_no_newline sandy2x_def List.map_filter_simps parse_examples [unfolded sandy2x_def])


section \<open>The Aggregate Matrix\<close>

lemmas data_eval = data_def allowed_def add_file_def groupBy_def set_path_def
  observations_def file_observations_def

text \<open>
  Claim C1, as amended. Provided every observation parsed from the file of an
  allow-listed host names that host (the names of a directory are distinct), the matrix
  built from the files stores, for every implementation and host, the smallest cycle
  count among all parsed observations of that implementation and host, and nothing for a
  pair that occurs in no observation.
\<close>

theorem matrix_holds_minimum:
  assumes "distinct (map fst dir)"
    and "\<forall>(hostname, file)\<in>set (allowed hosts dir). \<forall>content. file = Some content \<longrightarrow>
           (\<forall>ob\<in>set (datafile content). machine ob = hostname)"
    and "data hosts dir = Inr M"
  shows "stored M i m =
    (if {ob \<in> set (observations hosts dir). impl ob = i \<and> machine ob = m} = {} then None
     else Some (Min (cycles ` {ob \<in> set (observations hosts dir). impl ob = i \<and> machine ob = m})))"
proof -
  have d: "distinct (map fst (allowed hosts dir))"
    using assms(1) unfolding allowed_def by (rule distinct_map_filter)
  have r: "data_reduce Map.empty (allowed hosts dir) = Inr M"
    using assms(3) by (simp add: data_def)
  have "stored M i m =
    (if {ob \<in> set (file_observations (allowed hosts dir)). impl ob = i \<and> machine ob = m} = {}
     then stored Map.empty i m
     else Some (Min (cycles ` {ob \<in> set (file_observations (allowed hosts dir)).
                               impl ob = i \<and> machine ob = m})))"
    by (rule data_reduce_stored [OF r d assms(2)])
  then show ?thesis by (simp add: observations_def stored_def)
qed

lemma Some_eq_if: "Some a = (if P then None else Some b) \<Longrightarrow> \<not> P \<and> b = a"
  by (cases P) simp_all

text \<open>
  Two hosts; the first file holds two runs of one implementation, with 5000 and 5200
  cycles.
\<close>

theorem matrix_holds_minimum_witness:
  "data [''kivsa'', ''nakhash''] [(''kivsa'', Some kivsa_data), (''nakhash'', Some nakhash_data)]
     = Inr [sandy2x \<mapsto> [''kivsa'' \<mapsto> 5000, ''nakhash'' \<mapsto> 2000]] \<and>
   {ob \<in> set (observations [''kivsa'', ''nakhash'']
                 [(''kivsa'', Some kivsa_data), (''nakhash'', Some nakhash_data)]).
      impl ob = sandy2x \<and> machine ob = ''kivsa''} \<noteq> {} \<and>
   Min (cycles ` {ob \<in> set (observations [''kivsa'', ''nakhash'']
                                [(''kivsa'', Some kivsa_data), (''nakhash'', Some nakhash_data)]).
                   impl ob = sandy2x \<and> machine ob = ''kivsa''}) = 5000"
proof -
  let ?hosts = "[''kivsa'', ''nakhash'']"
  let ?dir = "[(''kivsa'', Some kivsa_data), (''nakhash'', Some nakhash_data)]"
  let ?M = "[sandy2x \<mapsto> [''kivsa'' \<mapsto> 5000, ''nakhash'' \<mapsto> (2000::nat)]]"
  let ?K = "{ob \<in> set (observations ?hosts ?dir). impl ob = sandy2x \<and> machine ob = ''kivsa''}"
  have dist: "distinct (map fst ?dir)" by simp
  have tags: "\<forall>(hostname, file)\<in>set (allowed ?hosts ?dir). \<forall>content. file = Some content \<longrightarrow>
           (\<forall>ob\<in>set (datafile content). machine ob = hostname)"
    by (simp add: allowed_def datafile_kivsa_data datafile_nakhash_data)
  have M: "data ?hosts ?dir = Inr ?M"
    by (simp add: data_eval datafile_kivsa_data datafile_nakhash_data)
  have s: "stored ?M sandy2x ''kivsa'' = Some 5000" by (simp add: stored_def)
  have "Some 5000 = (if ?K = {} then None else Some (Min (cycles ` ?K)))"
    using matrix_holds_minimum [OF dist tags M, of sandy2x "''kivsa''"] s by (simp only:)
  then have "?K \<noteq> {} \<and> Min (cycles ` ?K) = 5000"
    by (rule Some_eq_if)
  then show ?thesis using M by blast
qed

text \<open>
  Claim C1 as stated fails: the file of the host \<^verbatim>\<open>nakhash\<close> here holds a line that names
  the host \<^verbatim>\<open>kivsa\<close>; it overwrites the smaller value from the file read before.
\<close>

theorem matrix_not_minimum_counterexample:
  "data [''kivsa'', ''nakhash''] [(''kivsa'', Some kivsa_data), (''nakhash'', Some misfiled_data)]
     = Inr [sandy2x \<mapsto> [''kivsa'' \<mapsto> 9000]] \<and>
   observations [''kivsa'', ''nakhash'']
       [(''kivsa'', Some kivsa_data), (''nakhash'', Some misfiled_data)]
     = [\<lparr>impl = sandy2x, cycles = 5000, machine = ''kivsa''\<rparr>,
        \<lparr>impl = sandy2x, cycles = 5200, machine = ''kivsa''\<rparr>,
        \<lparr>impl = sandy2x, cycles = 9000, machine = ''kivsa''\<rparr>]"
  by (simp add: data_eval datafile_kivsa_data datafile_misfiled_data)

section \<open>The Host Loader\<close>

lemma parse_line_Some:
  assumes "parse_line line = Some ob"
  shows "\<exists>g. line_matches line g \<and> map_of g ''host'' = Some (machine ob)"
proof -
  from assms obtain g where g: "exec DB_REG_OK line = Some g" "carry g = Some ob"
    by (auto simp: parse_line_def split: if_splits option.splits)
  from exec_Some [OF g(1)] have "line_matches line g" by (simp add: line_matches_def)
  moreover have "map_of g ''host'' = Some (machine ob)"
    using g(2) by (auto simp: carry_def split: option.splits)
  ultimately show ?thesis by blast
qed

text \<open>
  Claim C5, as amended. Every observation the loader produces from a file is parsed from
  a line of that file and is tagged with the host field of that line, whatever the name
  of the directory the file is in.
\<close>

theorem observation_tagged_by_line:
  assumes "ob \<in> set (datafile content)"
  shows "\<exists>line\<in>set (split_on (CHR 0x0A) content).
    parse_line line = Some ob \<and> (\<exists>g. line_matches line g \<and> map_of g ''host'' = Some (machine ob))"
proof -
  from assms obtain line where "line \<in> set (split_on (CHR 0x0A) content)" "parse_line line = Some ob"
    by (auto simp: datafile_lines List.map_filter_def)
  then show ?thesis using parse_line_Some by blast
qed

text \<open>The observation of the file whose line names the host \<^verbatim>\<open>kivsa\<close>.\<close>

theorem observation_tagged_by_line_witness:
  "\<lparr>impl = sandy2x, cycles = 9000, machine = ''kivsa''\<rparr> \<in> set (datafile misfiled_data) \<and>
   (\<exists>line\<in>set (split_on (CHR 0x0A) misfiled_data).
      parse_line line = Some \<lparr>impl = sandy2x, cycles = 9000, machine = ''kivsa''\<rparr> \<and>
      (\<exists>g. line_matches line g \<and> map_of g ''host'' = Some ''kivsa''))"
proof -
  have "\<lparr>impl = sandy2x, cycles = 9000, machine = ''kivsa''\<rparr> \<in> set (datafile misfiled_data)"
    by (simp add: datafile_misfiled_data)
  then show ?thesis using observation_tagged_by_line by fastforce
qed

text \<open>
  Claim C5 as stated fails: the observation read from the file of the host \<^verbatim>\<open>nakhash\<close> is
  tagged \<^verbatim>\<open>kivsa\<close>, the host its line names.
\<close>

theorem observation_host_counterexample:
  "observations [''kivsa'', ''nakhash''] [(''nakhash'', Some misfiled_data)]
     = [\<lparr>impl = sandy2x, cycles = 9000, machine = ''kivsa''\<rparr>] \<and>
   data [''kivsa'', ''nakhash''] [(''nakhash'', Some misfiled_data)]
     = Inr [sandy2x \<mapsto> [''kivsa'' \<mapsto> 9000]]"
  by (simp add: data_eval datafile_misfiled_data)

section \<open>Records of implementations outside every section\<close>











section \<open>Identifiers without display metadata\<close>






section \<open>Implementations without observations\<close>

lemma section_lines_rows:
  assumes "section_lines cfg M impls = Inr ls"
  shows "\<exists>heading d. section_heading cfg impls = Inr heading \<and> section_d cfg M impls = Inr d \<and>
    ls = [bs @ ''midrule'', multirow (length impls) heading] @ map (render_row cfg d) d"
  using assms by (auto simp: section_lines_def split: sum.splits)

text \<open>
  Claim C8. The rows of a section are the rows of those configured implementations, in
  their order, that have an entry in the matrix, which are those with at least one parsed
  observation: after the two heading lines of the section there is one line for each of
  them and no line for any other implementation.
\<close>

theorem absent_implementations_omitted:
  assumes "data (machineOrder cfg) dir = Inr M" and "section_lines cfg M impls = Inr ls"
  shows "\<exists>d. section_d cfg M impls = Inr d \<and>
    map iname d = filter (\<lambda>ii. M ii \<noteq> None) impls \<and>
    map iname d =
      filter (\<lambda>ii. \<exists>ob\<in>set (observations (machineOrder cfg) dir). impl ob = ii) impls \<and>
    drop 2 ls = map (render_row cfg d) d"
proof -
  from section_lines_rows [OF assms(2)] obtain heading d where
    d: "section_d cfg M impls = Inr d"
    and ls: "ls = [bs @ ''midrule'', multirow (length impls) heading] @ map (render_row cfg d) d"
    by blast
  have "dom M = dom (Map.empty :: matrix) \<union>
      impl ` set (file_observations (allowed (machineOrder cfg) dir))"
    by (rule data_reduce_dom) (use assms(1) in \<open>simp add: data_def\<close>)
  then have dom: "dom M = impl ` set (observations (machineOrder cfg) dir)"
    by (simp add: observations_def)
  have "(\<lambda>ii. M ii \<noteq> None) = (\<lambda>ii. \<exists>ob\<in>set (observations (machineOrder cfg) dir). impl ob = ii)"
  proof
    fix ii
    have "M ii \<noteq> None \<longleftrightarrow> ii \<in> dom M" by (simp add: domIff)
    also have "\<dots> \<longleftrightarrow> (\<exists>ob\<in>set (observations (machineOrder cfg) dir). impl ob = ii)"
      unfolding dom by blast
    finally show "(M ii \<noteq> None) = (\<exists>ob\<in>set (observations (machineOrder cfg) dir). impl ob = ii)" .
  qed
  then have "filter (\<lambda>ii. M ii \<noteq> None) impls =
      filter (\<lambda>ii. \<exists>ob\<in>set (observations (machineOrder cfg) dir). impl ob = ii) impls"
    by (simp only:)
  moreover have "map iname d = filter (\<lambda>ii. M ii \<noteq> None) impls" by (rule section_d_inames [OF d])
  moreover have "drop 2 ls = map (render_row cfg d) d" by (simp add: ls)
  ultimately show ?thesis using d by simp
qed

text \<open>
  Two hosts with files; the section lists two implementations, and the files hold runs of
  the first only.
\<close>

theorem absent_implementations_omitted_witness:
  "data (machineOrder two_hosts) [(''kivsa'', Some kivsa_data), (''nakhash'', Some nakhash_data)]
     = Inr [sandy2x \<mapsto> [''kivsa'' \<mapsto> 5000, ''nakhash'' \<mapsto> 2000]] \<and>
   (\<exists>d. section_d two_hosts [sandy2x \<mapsto> [''kivsa'' \<mapsto> 5000, ''nakhash'' \<mapsto> 2000]]
          [sandy2x, amd64_64] = Inr d \<and>
        map iname d = [sandy2x] \<and>
        section_lines two_hosts [sandy2x \<mapsto> [''kivsa'' \<mapsto> 5000, ''nakhash'' \<mapsto> 2000]]
          [sandy2x, amd64_64]
          = Inr ([bs @ ''midrule'', multirow 2 ''Curve25519''] @ map (render_row two_hosts d) d))"
proof -
  let ?dir = "[(''kivsa'', Some kivsa_data), (''nakhash'', Some nakhash_data)]"
  let ?M = "[sandy2x \<mapsto> [''kivsa'' \<mapsto> 5000, ''nakhash'' \<mapsto> (2000::nat)]]"
  let ?r = "sandy2x_row [''kivsa'' \<mapsto> 5000, ''nakhash'' \<mapsto> 2000]"
  have ne: "amd64_64 \<noteq> sandy2x" by (simp add: sandy2x_def amd64_64_def)
  have M: "data (machineOrder two_hosts) ?dir = Inr ?M"
    by (simp add: data_eval two_hosts_def datafile_kivsa_data datafile_nakhash_data)
  have h: "section_heading two_hosts [sandy2x, amd64_64] = Inr ''Curve25519''"
    by (simp add: section_heading_def table_eval)
  have d: "section_d two_hosts ?M [sandy2x, amd64_64] = Inr [?r]"
    by (simp add: section_eval table_eval)
  have ls: "section_lines two_hosts ?M [sandy2x, amd64_64] =
      Inr ([bs @ ''midrule'', multirow 2 ''Curve25519''] @ map (render_row two_hosts [?r]) [?r])"
    by (simp add: section_lines_def h d numeral_2_eq_2)
  from absent_implementations_omitted [OF M ls] obtain d' where
    d': "section_d two_hosts ?M [sandy2x, amd64_64] = Inr d'"
    "map iname d' = filter (\<lambda>ii. ?M ii \<noteq> None) [sandy2x, amd64_64]"
    by blast
  have "d' = [?r]" using d d' by simp
  moreover have "map iname d' = [sandy2x]" using d'(2) ne by simp
  ultimately show ?thesis using M d ls by auto
qed

section \<open>The row span of the heading\<close>

text \<open>
  Claim C9 fails on the program. With the tables of the source and a root directory that
  holds the file of the host \<^verbatim>\<open>kivsa\<close> only, with runs of one implementation, the section
  of Curve25519 renders one row, and its heading declares a span of the 16 configured
  implementations.
\<close>

theorem multirow_counts_configured_implementations:
  "data (machineOrder supercop) [(''kivsa'', Some kivsa_data)]
     = Inr [sandy2x \<mapsto> [''kivsa'' \<mapsto> 5000]] \<and>
   section_lines supercop [sandy2x \<mapsto> [''kivsa'' \<mapsto> 5000]] (hd (implOrder supercop))
     = Inr [bs @ ''midrule'',
            bs @ ''multirow{16}{*}{'' @ bs @ ''rotatebox[origin=c]{90}{'' @ bs
              @ ''centering Curve25519}}'',
            render_row supercop [sandy2x_row [''kivsa'' \<mapsto> 5000]]
              (sandy2x_row [''kivsa'' \<mapsto> 5000])]"
proof -
  let ?M = "[sandy2x \<mapsto> [''kivsa'' \<mapsto> (5000::nat)]]"
  let ?S = "hd (implOrder supercop)"
  let ?r = "sandy2x_row [''kivsa'' \<mapsto> 5000]"
  have M: "data (machineOrder supercop) [(''kivsa'', Some kivsa_data)] = Inr ?M"
    by (simp add: data_eval supercop_def supercop_machineOrder_def datafile_kivsa_data)
  have h: "section_heading supercop ?S = Inr ''Curve25519''"
    by (simp add: section_heading_def supercop_def supercop_implOrder_def supercop_CAPTION_MAP_def)
  have d: "section_d supercop ?M ?S = Inr [?r]"
    by (simp add: section_eval supercop_def supercop_implOrder_def supercop_implMap_def
        supercop_languageMap_def sandy2x_def sandy2x_row_def)
  have n: "length ?S = 16" by (simp add: supercop_def supercop_implOrder_def)
  have m: "multirow 16 ''Curve25519'' =
      bs @ ''multirow{16}{*}{'' @ bs @ ''rotatebox[origin=c]{90}{'' @ bs @ ''centering Curve25519}}''"
    by (simp add: multirow_def num_eval)
  have "section_lines supercop ?M ?S =
      Inr ([bs @ ''midrule'', multirow (length ?S) ''Curve25519''] @ map (render_row supercop [?r]) [?r])"
    by (simp only: section_lines_def h d sum.case)
  then have "section_lines supercop ?M ?S =
      Inr [bs @ ''midrule'', multirow 16 ''Curve25519'', render_row supercop [?r] ?r]"
    by (simp only: n list.map append.simps)
  then show ?thesis using M by (simp only: m)
qed

end
